theory Spec2Isabelle
  imports Main
begin

section \<open>Python values used by invoicegen.py\<close>

text \<open>
  The program is a single Python module, \<^verbatim>\<open>src/invoicegen.py\<close>.  Exceptions
  that its statements can raise are values of \<open>exn\<close>; a computation that may raise
  returns \<open>exn + 'a\<close> with \<open>Inl\<close> for the exception.  Python integers are
  unbounded and modelled by \<open>int\<close> (the interpreter's optional limit on the
  number of digits converted between \<open>str\<close> and \<open>int\<close> is not modelled).
  A character of a text is a code point below 256.
\<close>

datatype exn = ValueError | FileNotFoundError | AttributeError | OSError | OverflowError

subsection \<open>Whitespace and \<open>str.strip()\<close>\<close>

text \<open>
  \<open>str.strip()\<close> without argument removes leading and trailing whitespace.  Below
  256 the whitespace characters of a Python \<open>str\<close> are the code points 9 to 13,
  28 to 31, 32, 133 and 160.
\<close>

definition is_space :: "char \<Rightarrow> bool" where
  "is_space c =
     (let n = (of_char c :: nat)
      in (9 \<le> n \<and> n \<le> 13) \<or> (28 \<le> n \<and> n \<le> 32) \<or> n = 133 \<or> n = 160)"

definition strip :: "string \<Rightarrow> string" where
  "strip s = rev (dropWhile is_space (rev (dropWhile is_space s)))"

text \<open>
  \<open>int(s)\<close> and \<open>float(s)\<close> skip leading and trailing whitespace themselves,
  but not the same characters: of the code points below 128 they skip only 9 to 13 and
  32 (the separators 28 to 31 are left in place and make the text invalid); the
  whitespace above 127 is skipped.
\<close>

definition is_num_space :: "char \<Rightarrow> bool" where
  "is_num_space c =
     (let n = (of_char c :: nat) in (9 \<le> n \<and> n \<le> 13) \<or> n = 32 \<or> n = 133 \<or> n = 160)"

definition strip_num :: "string \<Rightarrow> string" where
  "strip_num s = rev (dropWhile is_num_space (rev (dropWhile is_num_space s)))"

subsection \<open>\<open>str(n)\<close> and \<open>int(s)\<close>\<close>

definition is_digit :: "char \<Rightarrow> bool" where
  "is_digit c = (48 \<le> (of_char c :: nat) \<and> (of_char c :: nat) \<le> 57)"

definition digit_val :: "char \<Rightarrow> nat" where
  "digit_val c = of_char c - 48"

definition digit_char :: "nat \<Rightarrow> char" where
  "digit_char d = char_of (48 + d)"

fun str_nat :: "nat \<Rightarrow> string" where
  "str_nat n = (if n < 10 then [digit_char n] else str_nat (n div 10) @ [digit_char (n mod 10)])"

declare str_nat.simps [simp del]

text \<open>\<open>str(i)\<close> for an integer: the decimal digits, after a minus sign when negative.\<close>

definition str_int :: "int \<Rightarrow> string" where
  "str_int i = (if i < 0 then CHR ''-'' # str_nat (nat (- i)) else str_nat (nat i))"

text \<open>
  \<open>int(s)\<close> in base 10: surrounding whitespace is skipped, then an optional sign,
  then at least one digit; a single underscore may stand between two digits.
  Anything else raises \<open>ValueError\<close>.  \<open>int_digits acc cs\<close> reads what follows
  a digit, \<open>acc\<close> being the value read so far.
\<close>

fun int_digits :: "nat \<Rightarrow> string \<Rightarrow> nat option" where
  "int_digits acc [] = Some acc"
| "int_digits acc (c # cs) =
     (if is_digit c then int_digits (10 * acc + digit_val c) cs
      else if c = CHR ''_'' then
        (case cs of
           [] \<Rightarrow> None
         | d # ds \<Rightarrow> if is_digit d then int_digits (10 * acc + digit_val d) ds else None)
      else None)"

definition int_body :: "string \<Rightarrow> nat option" where
  "int_body s =
     (case s of
        [] \<Rightarrow> None
      | d # ds \<Rightarrow> if is_digit d then int_digits (digit_val d) ds else None)"

definition py_int :: "string \<Rightarrow> exn + int" where
  "py_int s =
     (case strip_num s of
        [] \<Rightarrow> Inl ValueError
      | c # cs \<Rightarrow>
          if c = CHR ''-'' then
            (case int_body cs of None \<Rightarrow> Inl ValueError | Some n \<Rightarrow> Inr (- int n))
          else if c = CHR ''+'' then
            (case int_body cs of None \<Rightarrow> Inl ValueError | Some n \<Rightarrow> Inr (int n))
          else
            (case int_body (c # cs) of None \<Rightarrow> Inl ValueError | Some n \<Rightarrow> Inr (int n)))"

section \<open>The invoice number file\<close>

text \<open>
  The file \<^verbatim>\<open>invoice_number.txt\<close> is modelled by its content: \<open>None\<close> when
  the file does not exist, \<open>Some s\<close> when it holds the text \<open>s\<close>.

  \<^verbatim>\<open>
  def verify_invoice_number_file(self):
      if not os.path.exists("invoice_number.txt"):
          with open("invoice_number.txt", "w") as f:
              f.write("0")
  \<close>
\<close>

definition verify_invoice_number_file :: "string option \<Rightarrow> string option" where
  "verify_invoice_number_file file =
     (case file of None \<Rightarrow> Some ''0'' | Some s \<Rightarrow> Some s)"

text \<open>
  A file opened with mode \<open>r+\<close> is not truncated.  After \<open>f.seek(0)\<close> the call
  \<open>f.write(new)\<close> replaces the first \<open>len(new)\<close> characters of the old content
  and leaves the characters behind them in place.
\<close>

definition write_at_start :: "string \<Rightarrow> string \<Rightarrow> string" where
  "write_at_start old new = new @ drop (length new) old"

text \<open>
  \<^verbatim>\<open>
  def get_next_invoice_number(self):
      with open("invoice_number.txt", "r+") as f:
          number = int(f.read().strip())
          f.seek(0)
          f.write(str(number + 1))
      return number + 1
  \<close>
  The result is the file afterwards and either the exception raised or the number
  returned.  When \<open>open\<close> or \<open>int\<close> raises, the file is left as it was.
\<close>

definition get_next_invoice_number :: "string option \<Rightarrow> string option \<times> (exn + int)" where
  "get_next_invoice_number file =
     (case file of
        None \<Rightarrow> (None, Inl FileNotFoundError)
      | Some content \<Rightarrow>
          (case py_int (strip content) of
             Inl e \<Rightarrow> (Some content, Inl e)
           | Inr number \<Rightarrow>
               (Some (write_at_start content (str_int (number + 1))), Inr (number + 1))))"

text \<open>
  \<open>allocate_n N file\<close> performs \<open>N\<close> calls of \<open>get_next_invoice_number\<close> one
  after the other; it yields the results of the calls in order and the file after the
  last call.
\<close>

fun allocate_n :: "nat \<Rightarrow> string option \<Rightarrow> (exn + int) list \<times> string option" where
  "allocate_n 0 file = ([], file)"
| "allocate_n (Suc n) file =
     (case get_next_invoice_number file of
        (file', r) \<Rightarrow> (case allocate_n n file' of (rs, file'') \<Rightarrow> (r # rs, file'')))"

section \<open>The application object and the configuration file\<close>

text \<open>
  \<open>app\<close> is the object \<open>self\<close> of class \<open>InvoiceGeneratorApp\<close>.  The eleven
  attributes that only \<open>load_config\<close> assigns are optional: \<open>None\<close> stands for an
  attribute that was never assigned, and reading it raises \<open>AttributeError\<close>.  A
  Tk string variable is modelled by the text it holds.  A line item is the tuple
  \<open>(date, description, location, rate)\<close> of the texts of its four entry fields.
\<close>

type_synonym line_item = "string \<times> string \<times> string \<times> string"

record app =
  companyimage_file_name :: "string option"
  signature_file_name :: "string option"
  company_name :: "string option"
  address :: "string option"
  city_st_zip :: "string option"
  phone_no :: "string option"
  email :: "string option"
  customer_name :: "string option"
  customer_email :: "string option"
  customer_address :: "string option"
  customer_city :: "string option"
  date :: string
  due_date :: string
  line_items :: "line_item list"

text \<open>
  \<open>self.authorized_signatory = self.company_name\<close> binds the attribute to the very
  string variable of the company name, so both always hold the same text.
\<close>

definition authorized_signatory :: "app \<Rightarrow> string option" where
  "authorized_signatory self = company_name self"

definition attr :: "'a option \<Rightarrow> exn + 'a" where
  "attr a = (case a of None \<Rightarrow> Inl AttributeError | Some v \<Rightarrow> Inr v)"

definition then_do :: "exn + 'a \<Rightarrow> ('a \<Rightarrow> exn + 'b) \<Rightarrow> exn + 'b" where
  "then_do r f = (case r of Inl e \<Rightarrow> Inl e | Inr v \<Rightarrow> f v)"

text \<open>\<open>s.split('=', 1)\<close>: the text before the first \<open>=\<close> and the text after it, or
  \<open>s\<close> alone when it has no \<open>=\<close>.\<close>

definition split_first_eq :: "string \<Rightarrow> string list" where
  "split_first_eq s =
     (if CHR ''='' \<in> set s
      then [takeWhile (\<lambda>c. c \<noteq> CHR ''='') s, tl (dropWhile (\<lambda>c. c \<noteq> CHR ''='') s)]
      else [s])"

text \<open>The \<open>if\<close>/\<open>elif\<close> chain of \<open>load_config\<close>; a key it does not list changes nothing.\<close>

definition set_attribute :: "string \<Rightarrow> string \<Rightarrow> app \<Rightarrow> app" where
  "set_attribute key v self =
     (if key = ''companyimage_file_name'' then self\<lparr>companyimage_file_name := Some v\<rparr>
      else if key = ''signature_file_name'' then self\<lparr>signature_file_name := Some v\<rparr>
      else if key = ''company_name'' then self\<lparr>company_name := Some v\<rparr>
      else if key = ''address'' then self\<lparr>address := Some v\<rparr>
      else if key = ''city_st_zip'' then self\<lparr>city_st_zip := Some v\<rparr>
      else if key = ''phone_no'' then self\<lparr>phone_no := Some v\<rparr>
      else if key = ''email'' then self\<lparr>email := Some v\<rparr>
      else if key = ''customer_name'' then self\<lparr>customer_name := Some v\<rparr>
      else if key = ''customer_email'' then self\<lparr>customer_email := Some v\<rparr>
      else if key = ''customer_address'' then self\<lparr>customer_address := Some v\<rparr>
      else if key = ''customer_city'' then self\<lparr>customer_city := Some v\<rparr>
      else self)"

text \<open>
  One round of the loop over the lines of the file:
  \<^verbatim>\<open>
  key, value = line.strip().split('=', 1)
  value = value.strip()
  \<close>
  Unpacking a list of one element into two names raises \<open>ValueError\<close>.
\<close>

definition load_line :: "string \<Rightarrow> app \<Rightarrow> exn + app" where
  "load_line line self =
     (case split_first_eq (strip line) of
        [key, v] \<Rightarrow> Inr (set_attribute key (strip v) self)
      | _ \<Rightarrow> Inl ValueError)"

fun load_lines :: "string list \<Rightarrow> app \<Rightarrow> exn + app" where
  "load_lines [] self = Inr self"
| "load_lines (line # rest) self =
     (case load_line line self of Inl e \<Rightarrow> Inl e | Inr self' \<Rightarrow> load_lines rest self')"

text \<open>
  \<open>load_config file_path file self\<close>: \<open>file\<close> is what \<open>file_path\<close> names, \<open>None\<close>
  when it is not a file, else its lines.  A missing file is reported in an error dialog
  and the method returns; the result lists the dialogs shown.  An exception raised in the
  loop is not caught.
\<close>

definition load_config :: "string \<Rightarrow> string list option \<Rightarrow> app \<Rightarrow> exn + (app \<times> string list)" where
  "load_config file_path file self =
     (case file of
        None \<Rightarrow> Inr (self, [''Configuration file not found: '' @ file_path])
      | Some lines \<Rightarrow>
          (case load_lines lines self of Inl e \<Rightarrow> Inl e | Inr self' \<Rightarrow> Inr (self', [])))"

text \<open>A call of \<open>load_config\<close> ends by reporting an error when it returns after showing
  an error dialog.\<close>

definition reports_error :: "exn + (app \<times> string list) \<Rightarrow> bool" where
  "reports_error r = (case r of Inl e \<Rightarrow> False | Inr (self, dialogs) \<Rightarrow> dialogs \<noteq> [])"

section \<open>Dates\<close>

text \<open>
  A \<open>datetime.date\<close> is its year, month and day.  Adding a \<open>timedelta\<close> goes through
  the proleptic Gregorian ordinal of the date (1 for 1 January of year 1), as in the
  reference implementation of the \<open>datetime\<close> module; a result outside the years 1 to
  9999 raises \<open>OverflowError\<close>.
\<close>

record pydate =
  year :: int
  month :: int
  day :: int

definition is_leap :: "int \<Rightarrow> bool" where
  "is_leap y = (y mod 4 = 0 \<and> (y mod 100 \<noteq> 0 \<or> y mod 400 = 0))"

definition days_before_year :: "int \<Rightarrow> int" where
  "days_before_year y = (y - 1) * 365 + (y - 1) div 4 - (y - 1) div 100 + (y - 1) div 400"

definition DAYS_IN_MONTH :: "int list" where
  "DAYS_IN_MONTH = [-1, 31, 28, 31, 30, 31, 30, 31, 31, 30, 31, 30, 31]"

definition DAYS_BEFORE_MONTH :: "int list" where
  "DAYS_BEFORE_MONTH = [-1, 0, 31, 59, 90, 120, 151, 181, 212, 243, 273, 304, 334]"

definition days_in_month :: "int \<Rightarrow> int \<Rightarrow> int" where
  "days_in_month y m = (if m = 2 \<and> is_leap y then 29 else DAYS_IN_MONTH ! nat m)"

definition days_before_month :: "int \<Rightarrow> int \<Rightarrow> int" where
  "days_before_month y m = DAYS_BEFORE_MONTH ! nat m + (if m > 2 \<and> is_leap y then 1 else 0)"

definition ymd2ord :: "int \<Rightarrow> int \<Rightarrow> int \<Rightarrow> int" where
  "ymd2ord y m d = days_before_year y + days_before_month y m + d"

definition ord2ymd :: "int \<Rightarrow> pydate" where
  "ord2ymd n =
     (let n0 = n - 1;
          n400 = n0 div 146097; r400 = n0 mod 146097;
          n100 = r400 div 36524; r100 = r400 mod 36524;
          n4 = r100 div 1461; r4 = r100 mod 1461;
          n1 = r4 div 365; r1 = r4 mod 365;
          y = n400 * 400 + 1 + n100 * 100 + n4 * 4 + n1
      in if n1 = 4 \<or> n100 = 4 then \<lparr>year = y - 1, month = 12, day = 31\<rparr>
         else
           let leapyear = (n1 = 3 \<and> (n4 \<noteq> 24 \<or> n100 = 3));
               m = (r1 + 50) div 32;
               preceding = DAYS_BEFORE_MONTH ! nat m + (if m > 2 \<and> leapyear then 1 else 0)
           in if preceding > r1
              then \<lparr>year = y, month = m - 1,
                    day = r1 - (preceding - (DAYS_IN_MONTH ! nat (m - 1)
                                             + (if m - 1 = 2 \<and> leapyear then 1 else 0))) + 1\<rparr>
              else \<lparr>year = y, month = m, day = r1 - preceding + 1\<rparr>)"

text \<open>The last step of \<open>ord2ymd\<close> on its own: the month and the day of the
  \<open>r\<close>-th day of a year, counted from 0.\<close>

definition month_day :: "int \<Rightarrow> bool \<Rightarrow> int \<times> int" where
  "month_day r leapyear =
     (let m = (r + 50) div 32;
          preceding = DAYS_BEFORE_MONTH ! nat m + (if m > 2 \<and> leapyear then 1 else 0)
      in if preceding > r
         then (m - 1, r - (preceding - (DAYS_IN_MONTH ! nat (m - 1)
                                         + (if m - 1 = 2 \<and> leapyear then 1 else 0))) + 1)
         else (m, r - preceding + 1))"

definition toordinal :: "pydate \<Rightarrow> int" where
  "toordinal d = ymd2ord (year d) (month d) (day d)"

definition MAXORDINAL :: int where
  "MAXORDINAL = 3652059"

text \<open>\<open>d + timedelta(days=k)\<close>.\<close>

definition add_days :: "pydate \<Rightarrow> int \<Rightarrow> exn + pydate" where
  "add_days d k =
     (let o' = toordinal d + k
      in if 0 < o' \<and> o' \<le> MAXORDINAL then Inr (ord2ymd o') else Inl OverflowError)"

text \<open>\<open>strftime("%d %B %Y")\<close>: the day in two digits, the English name of the month and
  the year in decimal.\<close>

definition MONTH_NAMES :: "string list" where
  "MONTH_NAMES = [''January'', ''February'', ''March'', ''April'', ''May'', ''June'', ''July'',
     ''August'', ''September'', ''October'', ''November'', ''December'']"

definition strftime :: "pydate \<Rightarrow> string" where
  "strftime d =
     (if day d < 10 then ''0'' @ str_int (day d) else str_int (day d))
       @ '' '' @ MONTH_NAMES ! nat (month d - 1) @ '' '' @ str_int (year d)"

text \<open>
  The calendar itself: a date is valid when its month and day exist, and \<open>next_day\<close>
  is the day after a date, rolling over into the next month and the next year.
\<close>

definition valid_date :: "pydate \<Rightarrow> bool" where
  "valid_date d =
     (1 \<le> year d \<and> year d \<le> 9999 \<and> 1 \<le> month d \<and> month d \<le> 12 \<and>
      1 \<le> day d \<and> day d \<le> days_in_month (year d) (month d))"

definition next_day :: "pydate \<Rightarrow> pydate" where
  "next_day d =
     (if day d < days_in_month (year d) (month d) then d\<lparr>day := day d + 1\<rparr>
      else if month d < 12 then d\<lparr>month := month d + 1, day := 1\<rparr>
      else \<lparr>year = year d + 1, month = 1, day = 1\<rparr>)"

text \<open>
  The callback of the calendar window, \<open>date_adj\<close> being the date that \<open>strptime\<close>
  read from the calendar's selection:
  \<^verbatim>\<open>
  self.date.set(date_adj.strftime("%d %B %Y"))
  self.due_date = (date_adj + timedelta(days=15)).strftime("%d %B %Y")
  \<close>
  The result is the object afterwards and the exception raised, if any.
\<close>

definition set_date :: "pydate \<Rightarrow> app \<Rightarrow> app \<times> exn option" where
  "set_date date_adj self =
     (let self1 = self\<lparr>date := strftime date_adj\<rparr>
      in case add_days date_adj 15 of
           Inl e \<Rightarrow> (self1, Some e)
         | Inr due \<Rightarrow> (self1\<lparr>due_date := strftime due\<rparr>, None))"

text \<open>
  The date field of the form is an entry bound to the same string variable,
  \<open>tk.Entry(self, textvariable=self.date, ...)\<close>: text typed into it becomes the value
  of \<open>self.date\<close>, and nothing else of the object changes.
\<close>

definition entry_date :: "string \<Rightarrow> app \<Rightarrow> app" where
  "entry_date s self = self\<lparr>date := s\<rparr>"

section \<open>The invoice document\<close>

subsection \<open>\<open>float(s)\<close>\<close>

text \<open>
  Only whether \<open>float(s)\<close> returns or raises \<open>ValueError\<close> is modelled; the value
  is kept as the symbolic \<open>PyFloat s\<close> below.  \<open>float\<close> skips surrounding whitespace,
  allows an underscore between two digits, and then accepts an optional sign followed by
  \<open>inf\<close>, \<open>infinity\<close> or \<open>nan\<close> in any case, or by a decimal number: digits with
  an optional point, or a point followed by digits, and an optional exponent.
\<close>

fun underscores_ok :: "char \<Rightarrow> string \<Rightarrow> bool" where
  "underscores_ok prev [] = (prev \<noteq> CHR ''_'')"
| "underscores_ok prev (c # cs) =
     (if c = CHR ''_'' then is_digit prev \<and> underscores_ok c cs
      else if prev = CHR ''_'' then is_digit c \<and> underscores_ok c cs
      else underscores_ok c cs)"

definition to_lower :: "char \<Rightarrow> char" where
  "to_lower c = (let n = (of_char c :: nat) in if 65 \<le> n \<and> n \<le> 90 then char_of (n + 32) else c)"

definition is_inf_or_nan :: "string \<Rightarrow> bool" where
  "is_inf_or_nan s =
     (let l = map to_lower s in l = ''inf'' \<or> l = ''infinity'' \<or> l = ''nan'')"

definition exponent_ok :: "string \<Rightarrow> bool" where
  "exponent_ok s =
     (case s of
        [] \<Rightarrow> True
      | e # r \<Rightarrow>
          (e = CHR ''e'' \<or> e = CHR ''E'') \<and>
          (let ds = (case r of
                       [] \<Rightarrow> []
                     | g # r' \<Rightarrow> if g = CHR ''+'' \<or> g = CHR ''-'' then r' else r)
           in ds \<noteq> [] \<and> list_all is_digit ds))"

definition decimal_ok :: "string \<Rightarrow> bool" where
  "decimal_ok s =
     (let ip = takeWhile is_digit s;
          r1 = dropWhile is_digit s;
          has_point = (case r1 of [] \<Rightarrow> False | p # r \<Rightarrow> p = CHR ''.'');
          fp = (if has_point then takeWhile is_digit (tl r1) else []);
          r2 = (if has_point then dropWhile is_digit (tl r1) else r1)
      in (ip \<noteq> [] \<or> fp \<noteq> []) \<and> exponent_ok r2)"

definition py_float_ok :: "string \<Rightarrow> bool" where
  "py_float_ok s =
     (let t = strip_num s;
          u = filter (\<lambda>c. c \<noteq> CHR ''_'') t;
          body = (case u of
                    [] \<Rightarrow> []
                  | c # cs \<Rightarrow> if c = CHR ''+'' \<or> c = CHR ''-'' then cs else u)
      in underscores_ok (CHR 0x00) t \<and> (is_inf_or_nan body \<or> decimal_ok body))"

text \<open>
  The value of \<open>subtotal\<close>: the integer it starts with, and the floating-point sums
  that \<open>subtotal += float(rate.get())\<close> builds, kept as written.
\<close>

datatype pynum = PyInt int | PyFloat string | Add pynum pynum

subsection \<open>The value of a float\<close>

text \<open>
  A Python float is an IEEE 754 binary64 number.  \<open>Finite m e\<close> is the number
  \<open>m * 2 ^ e\<close> (\<open>Finite 0 e\<close> is the positive zero), \<open>NegZero\<close> the negative
  zero.  Every operation below computes the exact result with integers and rounds it to
  the nearest binary64 number, ties to the even significand, as \<open>float(s)\<close>, the
  addition of floats and the format \<open>.2f\<close> do.
\<close>

datatype pyfloat = Finite int int | NegZero | PosInf | NegInf | NaN

text \<open>The number of binary digits of a natural number.\<close>

fun bitlen :: "nat \<Rightarrow> nat" where
  "bitlen n = (if n = 0 then 0 else Suc (bitlen (n div 2)))"

declare bitlen.simps [simp del]

text \<open>\<open>n / d\<close> rounded to the nearest integer, ties to the even one (\<open>d\<close> positive).\<close>

definition round_half_even :: "int \<Rightarrow> int \<Rightarrow> int" where
  "round_half_even n d =
     (let q = n div d; r = n mod d
      in if 2 * r < d then q else if d < 2 * r then q + 1 else if even q then q else q + 1)"

text \<open>
  The binary64 number nearest to \<open>n / d\<close> (both positive), negated when \<open>neg\<close>.
  \<open>k\<close> is the binary exponent of \<open>n / d\<close>, that is
  \<open>2 ^ k \<le> n / d < 2 ^ (k + 1)\<close>; the significand has 53 bits, fewer below
  \<open>2 ^ - 1022\<close>, where the exponent stops at \<open>- 1074\<close>.  A result of
  \<open>2 ^ 1024\<close> or more is an infinity, a result of 0 a zero.
\<close>

definition round_double :: "bool \<Rightarrow> int \<Rightarrow> int \<Rightarrow> pyfloat" where
  "round_double neg n d =
     (let k0 = int (bitlen (nat n)) - int (bitlen (nat d));
          k = (if (if 0 \<le> k0 then d * 2 ^ nat k0 \<le> n else d \<le> n * 2 ^ nat (- k0))
               then k0 else k0 - 1);
          e = max (k - 52) (- 1074);
          m = (if 0 \<le> e then round_half_even n (d * 2 ^ nat e)
               else round_half_even (n * 2 ^ nat (- e)) d)
      in if m = 0 then (if neg then NegZero else Finite 0 0)
         else if 971 < e \<or> (e = 971 \<and> 2 ^ 53 \<le> m) then (if neg then NegInf else PosInf)
         else Finite (if neg then - m else m) e)"

text \<open>
  The conversion of an integer to a float, as in \<open>0 + x\<close> and in the format of an
  integer with \<open>.2f\<close>.  (Python raises \<open>OverflowError\<close> for an integer beyond the
  range of the floats; the program converts only the integer 0.)
\<close>

definition float_of_int :: "int \<Rightarrow> pyfloat" where
  "float_of_int i = (if i = 0 then Finite 0 0 else round_double (i < 0) \<bar>i\<bar> 1)"

text \<open>The sum of two floats.\<close>

fun fadd :: "pyfloat \<Rightarrow> pyfloat \<Rightarrow> pyfloat" where
  "fadd NaN y = NaN"
| "fadd x NaN = NaN"
| "fadd PosInf NegInf = NaN"
| "fadd NegInf PosInf = NaN"
| "fadd PosInf y = PosInf"
| "fadd x PosInf = PosInf"
| "fadd NegInf y = NegInf"
| "fadd x NegInf = NegInf"
| "fadd NegZero y = y"
| "fadd x NegZero = x"
| "fadd (Finite m1 e1) (Finite m2 e2) =
     (let e = min e1 e2;
          m = m1 * 2 ^ nat (e1 - e) + m2 * 2 ^ nat (e2 - e)
      in if m = 0 then Finite 0 0
         else if 0 \<le> e then round_double (m < 0) (\<bar>m\<bar> * 2 ^ nat e) 1
         else round_double (m < 0) \<bar>m\<bar> (2 ^ nat (- e)))"

text \<open>
  The value of \<open>float(s)\<close> for a text that \<open>float\<close> accepts: the digits before and
  after the point form an integer, which is scaled by the power of ten that the exponent
  and the number of digits after the point give, and rounded.
\<close>

definition digits_value :: "string \<Rightarrow> nat" where
  "digits_value ds = foldl (\<lambda>acc c. 10 * acc + digit_val c) 0 ds"

definition exponent_value :: "string \<Rightarrow> int" where
  "exponent_value s =
     (case s of
        [] \<Rightarrow> 0
      | e # r \<Rightarrow>
          (case r of
             [] \<Rightarrow> 0
           | g # r' \<Rightarrow>
               if g = CHR ''-'' then - int (digits_value r')
               else if g = CHR ''+'' then int (digits_value r')
               else int (digits_value r)))"

definition decimal_value :: "bool \<Rightarrow> string \<Rightarrow> pyfloat" where
  "decimal_value neg s =
     (let ip = takeWhile is_digit s;
          r1 = dropWhile is_digit s;
          has_point = (case r1 of [] \<Rightarrow> False | p # r \<Rightarrow> p = CHR ''.'');
          fp = (if has_point then takeWhile is_digit (tl r1) else []);
          r2 = (if has_point then dropWhile is_digit (tl r1) else r1);
          digits = int (digits_value (ip @ fp));
          p = exponent_value r2 - int (length fp)
      in if digits = 0 then (if neg then NegZero else Finite 0 0)
         else if 0 \<le> p then round_double neg (digits * 10 ^ nat p) 1
         else round_double neg digits (10 ^ nat (- p)))"

definition float_value :: "string \<Rightarrow> pyfloat" where
  "float_value s =
     (let u = filter (\<lambda>c. c \<noteq> CHR ''_'') (strip_num s);
          neg = (case u of [] \<Rightarrow> False | c # cs \<Rightarrow> c = CHR ''-'');
          body = (case u of
                    [] \<Rightarrow> []
                  | c # cs \<Rightarrow> if c = CHR ''+'' \<or> c = CHR ''-'' then cs else u);
          l = map to_lower body
      in if l = ''nan'' then NaN
         else if l = ''inf'' \<or> l = ''infinity'' then (if neg then NegInf else PosInf)
         else decimal_value neg body)"

text \<open>
  The text of a float in the format \<open>.2f\<close>: the exact value in hundredths, rounded
  to the nearest integer with ties to the even one, written with two digits after the
  point; a negative value keeps its sign when it rounds to zero.
\<close>

definition format_2f :: "pyfloat \<Rightarrow> string" where
  "format_2f v =
     (case v of
        NaN \<Rightarrow> ''nan''
      | PosInf \<Rightarrow> ''inf''
      | NegInf \<Rightarrow> ''-inf''
      | NegZero \<Rightarrow> ''-0.00''
      | Finite m e \<Rightarrow>
          (let c = (if 0 \<le> e then \<bar>m\<bar> * 100 * 2 ^ nat e
                    else round_half_even (\<bar>m\<bar> * 100) (2 ^ nat (- e)))
           in (if m < 0 then ''-'' else []) @ str_int (c div 100) @ ''.''
                @ [digit_char (nat (c mod 100 div 10)), digit_char (nat (c mod 10))]))"

text \<open>The float that a value of \<open>subtotal\<close> stands for, and the text
  \<open>f"$ {subtotal:.2f}"\<close> drawn for it.\<close>

primrec pynum_value :: "pynum \<Rightarrow> pyfloat" where
  "pynum_value (PyInt i) = float_of_int i"
| "pynum_value (PyFloat s) = float_value s"
| "pynum_value (Add a b) = fadd (pynum_value a) (pynum_value b)"

definition amount_text :: "pynum \<Rightarrow> string" where
  "amount_text v = ''$ '' @ format_2f (pynum_value v)"

subsection \<open>The canvas\<close>

text \<open>
  A document is the list of the drawing calls made on the canvas, in the order of the
  calls.  Lengths are in millimetres (\<open>cm\<close> is 10).  A horizontal position is
  measured from the left edge, from the right edge (\<open>width - x\<close>) or is the middle of
  the page (\<open>width / 2\<close>); a vertical position is measured down from the top edge
  (\<open>height - y\<close>) or up from the bottom edge.  A colour is given in tenths.
\<close>

datatype hpos = FromLeft int | FromRight int | Centre

datatype vpos = FromTop int | FromBottom int

fun below :: "vpos \<Rightarrow> int \<Rightarrow> vpos" where
  "below (FromTop y) d = FromTop (y + d)"
| "below (FromBottom y) d = FromBottom (y - d)"

datatype colour = RGB nat nat nat

datatype canvas_op =
    DrawImage string hpos vpos int int bool
  | SetFont string nat
  | SetFillColor colour
  | SetStrokeColor colour
  | DrawString hpos vpos string
  | DrawRightString hpos vpos string
  | DrawCentredString hpos vpos string
  | DrawRightAmount hpos vpos pynum
  | Line hpos vpos hpos vpos
  | Rect hpos vpos int int
  | ShowPage

text \<open>
  \<open>DrawImage file x y w h mask\<close> is \<open>drawImage\<close> (\<open>mask\<close>: called with
  \<open>mask='auto'\<close>); \<open>DrawRightAmount x y v\<close> is \<open>drawRightString\<close> of the text
  \<open>f"$ {v:.2f}"\<close>; \<open>Rect x y w h\<close> is \<open>rect\<close> with \<open>fill=1, stroke=0\<close>.
\<close>

definition light_grey :: colour where
  "light_grey = RGB 9 9 9"

subsection \<open>Files\<close>

text \<open>
  What the program reads and writes on disk: the lines of \<^verbatim>\<open>config.txt\<close>, the
  content of \<^verbatim>\<open>invoice_number.txt\<close>, the paths that can be opened as images,
  whether the directory \<^verbatim>\<open>invoices\<close> exists, and the documents written so far, by
  path.  A canvas keeps its drawing calls in memory; only \<open>save()\<close> opens and writes
  the file the canvas was created for.
\<close>

record fs =
  config_file :: "string list option"
  counter_file :: "string option"
  image_files :: "string list"
  invoices_dir :: bool
  pdf_files :: "string \<rightharpoonup> canvas_op list"

definition open_image :: "fs \<Rightarrow> string \<Rightarrow> exn + unit" where
  "open_image files path = (if path \<in> set (image_files files) then Inr () else Inl OSError)"

subsection \<open>\<open>generate_invoice\<close>\<close>

text \<open>
  The check at the head of \<open>generate_invoice\<close> reads seven fields from left to right
  and stops at the first empty one:
  \<^verbatim>\<open>
  if not self.company_name.get() or not self.address.get() or not self.city_st_zip.get()
     or not self.date.get() or not self.customer_name.get() or not self.phone_no.get()
     or not self.authorized_signatory.get():
  \<close>
\<close>

fun any_empty :: "string option list \<Rightarrow> exn + bool" where
  "any_empty [] = Inr False"
| "any_empty (None # rest) = Inl AttributeError"
| "any_empty (Some v # rest) = (if v = [] then Inr True else any_empty rest)"

definition fields_missing :: "app \<Rightarrow> exn + bool" where
  "fields_missing self =
     any_empty [company_name self, address self, city_st_zip self, Some (date self),
                customer_name self, phone_no self, authorized_signatory self]"

text \<open>The calls from the logo down to the column headers of the line items.\<close>

definition header_ops :: "app \<Rightarrow> fs \<Rightarrow> int \<Rightarrow> exn + canvas_op list" where
  "header_ops self files invoice_number =
     then_do (attr (companyimage_file_name self)) (\<lambda>logo.
     then_do (open_image files logo) (\<lambda>u.
     then_do (attr (company_name self)) (\<lambda>v_company_name.
     then_do (attr (email self)) (\<lambda>v_email.
     then_do (attr (phone_no self)) (\<lambda>v_phone_no.
     then_do (attr (address self)) (\<lambda>v_address.
     then_do (attr (city_st_zip self)) (\<lambda>v_city_st_zip.
     then_do (attr (customer_name self)) (\<lambda>v_customer_name.
     then_do (attr (customer_email self)) (\<lambda>v_customer_email.
     then_do (attr (customer_address self)) (\<lambda>v_customer_address.
     then_do (attr (customer_city self)) (\<lambda>v_customer_city.
     Inr [DrawImage logo (FromLeft 20) (FromTop 35) 40 20 False,
          SetFont ''Helvetica'' 10,
          SetFillColor (RGB 6 6 6),
          DrawRightString (FromRight 20) (FromTop 20) v_company_name,
          DrawRightString (FromRight 20) (FromTop 25) v_email,
          DrawRightString (FromRight 20) (FromTop 30) v_phone_no,
          DrawRightString (FromRight 20) (FromTop 35) v_address,
          DrawRightString (FromRight 20) (FromTop 40) v_city_st_zip,
          SetFillColor (RGB 0 0 0),
          SetFont ''Helvetica'' 20,
          SetFillColor (RGB 0 6 9),
          DrawCentredString Centre (FromTop 50) ''INVOICE'',
          SetFillColor (RGB 0 0 0),
          SetFont ''Helvetica-Bold'' 10,
          DrawRightString (FromRight 20) (FromTop 50) (''Invoice No.: '' @ str_int invoice_number),
          SetFont ''Helvetica'' 10,
          DrawRightString (FromRight 20) (FromTop 55) (date self),
          SetFont ''Helvetica-Bold'' 10,
          DrawString (FromLeft 20) (FromTop 50) ''BILL TO:'',
          SetFont ''Helvetica'' 10,
          DrawString (FromLeft 20) (FromTop 55) v_customer_name,
          DrawString (FromLeft 20) (FromTop 60) v_customer_email,
          DrawString (FromLeft 20) (FromTop 65) v_customer_address,
          DrawString (FromLeft 20) (FromTop 70) v_customer_city,
          SetStrokeColor (RGB 8 8 8),
          Line (FromLeft 20) (FromTop 80) (FromRight 20) (FromTop 80),
          DrawString (FromLeft 20) (FromTop 85) ''Date'',
          DrawString (FromLeft 50) (FromTop 85) ''Description'',
          DrawString (FromLeft 120) (FromTop 85) ''Location'',
          DrawString (FromLeft 170) (FromTop 85) ''Rate''])))))))))))"

text \<open>
  The calls of one round of the loop over the line items, before \<open>float\<close> is applied
  to the rate:
  \<^verbatim>\<open>
  if index % 2 != 0:
      inv_canvas.setFillColor(light_grey)
      inv_canvas.rect(1.8 * cm, y_position - 0.2 * cm, 17 * cm, .70 * cm, fill=1, stroke=0)
  inv_canvas.setFillColor(Color(0, 0, 0))
  inv_canvas.drawString(2 * cm, y_position, date.get())
  inv_canvas.drawString(5 * cm, y_position, description.get())
  inv_canvas.drawString(12 * cm, y_position, location.get())
  inv_canvas.drawString(17 * cm, y_position, "$" + rate.get())
  \<close>
\<close>

definition row_text :: "vpos \<Rightarrow> line_item \<Rightarrow> canvas_op list" where
  "row_text y_position item =
     (case item of (item_date, description, location, rate) \<Rightarrow>
        [SetFillColor (RGB 0 0 0),
         DrawString (FromLeft 20) y_position item_date,
         DrawString (FromLeft 50) y_position description,
         DrawString (FromLeft 120) y_position location,
         DrawString (FromLeft 170) y_position (''$'' @ rate)])"

definition row_ops :: "nat \<Rightarrow> vpos \<Rightarrow> line_item \<Rightarrow> canvas_op list" where
  "row_ops index y_position item =
     (if index mod 2 \<noteq> 0
      then [SetFillColor light_grey, Rect (FromLeft 18) (below y_position 2) 170 7]
      else [])
     @ row_text y_position item"

text \<open>
  The loop \<open>for index, item in enumerate(self.line_items)\<close>, from the round
  \<open>index\<close> on.  It yields the calls made, the final \<open>y_position\<close> and the final
  \<open>subtotal\<close>, or the \<open>ValueError\<close> of the first rate that \<open>float\<close> rejects.
\<close>

fun draw_items :: "nat \<Rightarrow> vpos \<Rightarrow> pynum \<Rightarrow> line_item list \<Rightarrow> exn + (canvas_op list \<times> vpos \<times> pynum)" where
  "draw_items index y_position subtotal [] = Inr ([], y_position, subtotal)"
| "draw_items index y_position subtotal ((item_date, description, location, rate) # items) =
     (if py_float_ok rate
      then (case draw_items (Suc index) (below y_position 10) (Add subtotal (PyFloat rate)) items of
              Inl e \<Rightarrow> Inl e
            | Inr (ops, y_end, subtotal_end) \<Rightarrow>
                Inr (row_ops index y_position (item_date, description, location, rate) @ ops, y_end, subtotal_end))
      else Inl ValueError)"

text \<open>The calls after the loop, down to \<open>showPage()\<close>.  The note is shorter than the
  wrapping width, so it is drawn as one line.\<close>

definition footer_ops :: "app \<Rightarrow> fs \<Rightarrow> vpos \<Rightarrow> pynum \<Rightarrow> exn + canvas_op list" where
  "footer_ops self files y_position subtotal =
     then_do (attr (authorized_signatory self)) (\<lambda>v_signatory.
     then_do (attr (signature_file_name self)) (\<lambda>signature.
     then_do (open_image files signature) (\<lambda>u.
     Inr [SetStrokeColor (RGB 8 8 8),
          Line (FromLeft 20) y_position (FromRight 20) y_position,
          DrawRightString (FromRight 60) (below y_position 10) ''Total:'',
          SetFont ''Helvetica-Bold'' 12,
          SetFillColor (RGB 0 6 9),
          DrawRightAmount (FromRight 30) (below y_position 10) subtotal,
          SetFillColor (RGB 0 0 0),
          SetStrokeColor (RGB 8 8 8),
          Line (FromRight 80) (below y_position 15) (FromRight 20) (below y_position 15),
          SetFont ''Helvetica'' 10,
          SetFont ''Helvetica-Bold'' 10,
          DrawRightString (FromRight 57) (below y_position 20) ''Due Date:'',
          SetFont ''Helvetica'' 10,
          DrawRightString (FromRight 25) (below y_position 20) (due_date self),
          DrawRightString (FromRight 20) (FromBottom 20) (''Authorized Signatory: '' @ v_signatory),
          DrawImage signature (FromRight 60) (FromBottom 25) 60 20 True,
          SetFillColor (RGB 5 5 5),
          SetFont ''Helvetica'' 10,
          DrawString (FromLeft 30) (below y_position 30) ''Your business is greatly appreciated.'',
          ShowPage])))"

definition draw_invoice :: "app \<Rightarrow> fs \<Rightarrow> int \<Rightarrow> exn + canvas_op list" where
  "draw_invoice self files invoice_number =
     then_do (header_ops self files invoice_number) (\<lambda>head.
     then_do (draw_items 0 (FromTop 95) (PyInt 0) (line_items self)) (\<lambda>(rows, y_position, subtotal).
     then_do (footer_ops self files y_position subtotal) (\<lambda>foot.
     Inr (head @ rows @ foot))))"

text \<open>
  How a call of \<open>generate_invoice\<close> ends: it shows an error dialog and returns, an
  exception leaves it, or it saves the document under the given path (and then shows the
  success dialog, closes the window and opens the document).
\<close>

datatype outcome = ShowError string | Raised exn | Generated string

definition generate_invoice :: "app \<Rightarrow> fs \<Rightarrow> fs \<times> outcome" where
  "generate_invoice self files =
     (case fields_missing self of
        Inl e \<Rightarrow> (files, Raised e)
      | Inr True \<Rightarrow> (files, ShowError ''Please fill in all fields.'')
      | Inr False \<Rightarrow>
          (case get_next_invoice_number (counter_file files) of
             (counter', Inl e) \<Rightarrow> (files\<lparr>counter_file := counter'\<rparr>, Raised e)
           | (counter', Inr invoice_number) \<Rightarrow>
               (let files1 = files\<lparr>counter_file := counter'\<rparr>;
                    pdf_filename = ''invoices/Invoice_'' @ str_int invoice_number @ ''.pdf''
                in case draw_invoice self files1 invoice_number of
                     Inl e \<Rightarrow> (files1, Raised e)
                   | Inr ops \<Rightarrow>
                       if invoices_dir files1
                       then (files1\<lparr>pdf_files := (pdf_files files1)(pdf_filename \<mapsto> ops)\<rparr>,
                             Generated pdf_filename)
                       else (files1, Raised FileNotFoundError))))"

subsection \<open>The constructor\<close>

text \<open>
  \<open>__init__\<close> on the day \<open>today\<close>: it loads \<^verbatim>\<open>config.txt\<close>, sets the date and the
  due date, builds the form (which reads the attributes of the five text fields and
  raises \<open>AttributeError\<close> for one that the configuration did not set) and makes sure
  that the counter file exists.  It yields the object, the files and the dialogs shown.
\<close>

definition new_app :: app where
  "new_app = \<lparr>companyimage_file_name = None, signature_file_name = None, company_name = None,
     address = None, city_st_zip = None, phone_no = None, email = None, customer_name = None,
     customer_email = None, customer_address = None, customer_city = None,
     date = [], due_date = [], line_items = []\<rparr>"

definition form_built :: "app \<Rightarrow> bool" where
  "form_built self =
     (company_name self \<noteq> None \<and> address self \<noteq> None \<and> city_st_zip self \<noteq> None \<and>
      phone_no self \<noteq> None \<and> customer_name self \<noteq> None)"

definition init :: "pydate \<Rightarrow> fs \<Rightarrow> exn + (app \<times> fs \<times> string list)" where
  "init today files =
     then_do (load_config ''config.txt'' (config_file files) new_app) (\<lambda>(self1, dialogs).
     then_do (add_days today 15) (\<lambda>due.
       let self2 = self1\<lparr>date := strftime today, due_date := strftime due, line_items := []\<rparr>
       in if form_built self2
          then Inr (self2, files\<lparr>counter_file := verify_invoice_number_file (counter_file files)\<rparr>, dialogs)
          else Inl AttributeError))"

subsection \<open>Observations on a document, and an example\<close>

fun is_rect :: "canvas_op \<Rightarrow> bool" where
  "is_rect (Rect x y w h) = True"
| "is_rect other = False"

fun is_amount :: "canvas_op \<Rightarrow> bool" where
  "is_amount (DrawRightAmount x y v) = True"
| "is_amount other = False"

text \<open>The text that a call draws, if it draws one.\<close>

fun op_text :: "canvas_op \<Rightarrow> string option" where
  "op_text (DrawString x y s) = Some s"
| "op_text (DrawRightString x y s) = Some s"
| "op_text (DrawCentredString x y s) = Some s"
| "op_text (DrawRightAmount x y v) = Some (amount_text v)"
| "op_text other = None"

definition item_rate :: "line_item \<Rightarrow> string" where
  "item_rate item = (case item of (item_date, description, location, rate) \<Rightarrow> rate)"

text \<open>The band that \<open>rect\<close> paints behind the row \<open>k\<close> of the line items, and the
  vertical position of that row.\<close>

definition row_y :: "nat \<Rightarrow> vpos" where
  "row_y k = FromTop (95 + 10 * int k)"

definition band :: "nat \<Rightarrow> canvas_op" where
  "band k = Rect (FromLeft 18) (FromTop (97 + 10 * int k)) 170 7"

text \<open>An object as the form may leave it, with five line items and four empty optional
  fields, and a disk on which the counter stands at 41.\<close>

definition example_app :: app where
  "example_app = \<lparr>companyimage_file_name = Some ''logo.png'',
     signature_file_name = Some ''signature.png'',
     company_name = Some ''Acme Ltd'', address = Some ''1 Main Street'',
     city_st_zip = Some ''Springfield, IL 62701'', phone_no = Some ''555-0100'',
     email = Some '''', customer_name = Some ''Jane Doe'', customer_email = Some '''',
     customer_address = Some '''', customer_city = Some '''',
     date = ''01 January 2024'', due_date = ''16 January 2024'',
     line_items = [(''2 Jan'', ''Survey'', ''Site A'', ''10.00''),
                   (''3 Jan'', ''Design'', ''Office'', ''20.50''),
                   (''4 Jan'', ''Travel'', ''Site B'', ''5.25''),
                   (''5 Jan'', ''Review'', ''Office'', ''7''),
                   (''6 Jan'', ''Report'', ''Office'', ''1e2'')]\<rparr>"

definition example_files :: fs where
  "example_files = \<lparr>config_file = None, counter_file = Some ''41'',
     image_files = [''logo.png'', ''signature.png''], invoices_dir = True,
     pdf_files = Map.empty\<rparr>"

text \<open>The example object with three line items, of the rates 10.00, 20.50 and 5.25.\<close>

definition subtotal_example :: app where
  "subtotal_example = example_app\<lparr>line_items :=
     [(''2 Jan'', ''Survey'', ''Site A'', ''10.00''),
      (''3 Jan'', ''Design'', ''Office'', ''20.50''),
      (''4 Jan'', ''Travel'', ''Site B'', ''5.25'')]\<rparr>"

text \<open>The example object after 4 November 2026 was chosen in the calendar window and
  the text \<open>01 January 2024\<close> was then typed into the date field.\<close>

definition typed_date_example :: app where
  "typed_date_example =
     entry_date ''01 January 2024'' (fst (set_date \<lparr>year = 2026, month = 11, day = 4\<rparr> example_app))"

section \<open>Properties of the decimal conversions\<close>

lemma is_digit_digit_char: "d < 10 \<Longrightarrow> is_digit (digit_char d)"
  by (simp add: is_digit_def digit_char_def)

lemma digit_val_digit_char: "d < 10 \<Longrightarrow> digit_val (digit_char d) = d"
  by (simp add: digit_val_def digit_char_def)

lemma is_digit_not_space: "is_digit c \<Longrightarrow> \<not> is_space c"
  by (auto simp: is_digit_def is_space_def Let_def)

lemma str_nat_digits: "c \<in> set (str_nat n) \<Longrightarrow> is_digit c"
proof (induction n arbitrary: c rule: str_nat.induct)
  case (1 n)
  show ?case
  proof (cases "n < 10")
    case True
    with "1.prems" show ?thesis
      by (simp add: str_nat.simps [of n] is_digit_digit_char)
  next
    case False
    with "1.prems" have "c \<in> set (str_nat (n div 10)) \<or> c = digit_char (n mod 10)"
      by (auto simp: str_nat.simps [of n])
    then show ?thesis
      using "1.IH" [OF False] by (auto simp: is_digit_digit_char)
  qed
qed

lemma str_nat_not_Nil: "str_nat n \<noteq> []"
  by (simp add: str_nat.simps [of n])

lemma int_digits_append:
  "\<forall>c \<in> set ds. is_digit c \<Longrightarrow> d < 10 \<Longrightarrow>
   int_digits acc ds = Some v \<Longrightarrow> int_digits acc (ds @ [digit_char d]) = Some (10 * v + d)"
  by (induction ds arbitrary: acc)
     (auto simp: is_digit_digit_char digit_val_digit_char)

lemma int_body_append:
  assumes "\<forall>c \<in> set ds. is_digit c" and "d < 10" and "int_body ds = Some v"
  shows "int_body (ds @ [digit_char d]) = Some (10 * v + d)"
proof (cases ds)
  case Nil
  with assms show ?thesis by (simp add: int_body_def)
next
  case (Cons e es)
  with assms have "int_digits (digit_val e) es = Some v" and "\<forall>c \<in> set es. is_digit c"
    by (auto simp: int_body_def)
  then have "int_digits (digit_val e) (es @ [digit_char d]) = Some (10 * v + d)"
    using assms(2) by (simp add: int_digits_append)
  with Cons assms show ?thesis by (simp add: int_body_def)
qed

lemma int_body_str_nat: "int_body (str_nat n) = Some n"
proof (induction n rule: str_nat.induct)
  case (1 n)
  show ?case
  proof (cases "n < 10")
    case True
    then show ?thesis
      by (simp add: str_nat.simps [of n] int_body_def is_digit_digit_char digit_val_digit_char)
  next
    case False
    have "int_body (str_nat (n div 10) @ [digit_char (n mod 10)]) = Some (10 * (n div 10) + n mod 10)"
      using "1.IH" [OF False] by (intro int_body_append) (auto dest: str_nat_digits)
    with False show ?thesis by (simp add: str_nat.simps [of n])
  qed
qed

lemma strip_no_space:
  assumes "s \<noteq> []" and "\<not> is_space (hd s)" and "\<not> is_space (last s)"
  shows "strip s = s"
proof -
  from assms have "dropWhile is_space s = s"
    by (cases s) auto
  moreover from assms have "dropWhile is_space (rev s) = rev s"
    by (cases "rev s") (auto simp: last_rev [symmetric] hd_rev)
  ultimately show ?thesis by (simp add: strip_def)
qed

lemma is_digit_not_num_space: "is_digit c \<Longrightarrow> \<not> is_num_space c"
  by (auto simp: is_digit_def is_num_space_def Let_def)

lemma strip_num_no_space:
  assumes "s \<noteq> []" and "\<not> is_num_space (hd s)" and "\<not> is_num_space (last s)"
  shows "strip_num s = s"
proof -
  from assms have "dropWhile is_num_space s = s"
    by (cases s) auto
  moreover from assms have "dropWhile is_num_space (rev s) = rev s"
    by (cases "rev s") (auto simp: last_rev [symmetric] hd_rev)
  ultimately show ?thesis by (simp add: strip_num_def)
qed

lemma strip_num_str_nat: "strip_num (str_nat n) = str_nat n"
proof (rule strip_num_no_space)
  show "str_nat n \<noteq> []" by (rule str_nat_not_Nil)
  show "\<not> is_num_space (hd (str_nat n))"
    using str_nat_not_Nil [of n] by (intro is_digit_not_num_space str_nat_digits [of _ n]) simp
  show "\<not> is_num_space (last (str_nat n))"
    using str_nat_not_Nil [of n] by (intro is_digit_not_num_space str_nat_digits [of _ n]) simp
qed

lemma strip_str_nat: "strip (str_nat n) = str_nat n"
proof (rule strip_no_space)
  show "str_nat n \<noteq> []" by (rule str_nat_not_Nil)
  show "\<not> is_space (hd (str_nat n))"
    using str_nat_not_Nil [of n] by (intro is_digit_not_space str_nat_digits [of _ n]) simp
  show "\<not> is_space (last (str_nat n))"
    using str_nat_not_Nil [of n] by (intro is_digit_not_space str_nat_digits [of _ n]) simp
qed

lemma digit_not_sign: "is_digit c \<Longrightarrow> c \<noteq> CHR ''-'' \<and> c \<noteq> CHR ''+''"
  by (auto simp: is_digit_def)

lemma py_int_str_nat: "py_int (str_nat n) = Inr (int n)"
proof -
  obtain c cs where s: "str_nat n = c # cs"
    using str_nat_not_Nil [of n] by (cases "str_nat n") auto
  then have "is_digit c"
    using str_nat_digits [of c n] by simp
  then have "c \<noteq> CHR ''-''" and "c \<noteq> CHR ''+''"
    by (simp_all add: digit_not_sign)
  moreover have "int_body (c # cs) = Some n"
    using int_body_str_nat [of n] s by simp
  moreover have "strip_num (c # cs) = c # cs"
    using strip_num_str_nat [of n] s by simp
  ultimately show ?thesis
    by (simp add: py_int_def s)
qed

lemma length_str_nat_mono: "m \<le> n \<Longrightarrow> length (str_nat m) \<le> length (str_nat n)"
proof (induction n arbitrary: m rule: str_nat.induct)
  case (1 n)
  show ?case
  proof (cases "n < 10")
    case True
    with "1.prems" show ?thesis
      by (simp add: str_nat.simps [of n] str_nat.simps [of m])
  next
    case False
    show ?thesis
    proof (cases "m < 10")
      case True
      have "1 \<le> length (str_nat (n div 10))"
        using str_nat_not_Nil [of "n div 10"] by (cases "str_nat (n div 10)") auto
      with True False show ?thesis
        by (simp add: str_nat.simps [of n] str_nat.simps [of m])
    next
      case m: False
      from "1.prems" have "m div 10 \<le> n div 10"
        by (rule div_le_mono)
      then have "length (str_nat (m div 10)) \<le> length (str_nat (n div 10))"
        by (rule "1.IH" [OF False])
      with False m show ?thesis
        by (simp add: str_nat.simps [of n] str_nat.simps [of m])
    qed
  qed
qed

lemma write_at_start_covers: "length old \<le> length new \<Longrightarrow> write_at_start old new = new"
  by (simp add: write_at_start_def)

text \<open>
  One allocation on a file that holds the decimal text of a non-negative number: the text
  of the successor is never shorter, so the write replaces the whole content.
\<close>

lemma get_next_canonical:
  assumes "0 \<le> C"
  shows "get_next_invoice_number (Some (str_int C)) = (Some (str_int (C + 1)), Inr (C + 1))"
proof -
  from assms have old: "str_int C = str_nat (nat C)" and new: "str_int (C + 1) = str_nat (nat C + 1)"
    by (simp_all add: str_int_def nat_add_distrib)
  have "py_int (strip (str_nat (nat C))) = Inr C"
    using assms by (simp add: strip_str_nat py_int_str_nat)
  moreover have "write_at_start (str_nat (nat C)) (str_nat (nat C + 1)) = str_nat (nat C + 1)"
    by (intro write_at_start_covers length_str_nat_mono) simp
  ultimately show ?thesis
    by (simp add: get_next_invoice_number_def old new)
qed

lemma allocate_n_canonical:
  "0 \<le> C \<Longrightarrow>
   allocate_n N (Some (str_int C)) =
     (map (\<lambda>k. Inr (C + int k)) [1..<Suc N], Some (str_int (C + int N)))"
proof (induction N arbitrary: C)
  case 0
  then show ?case by simp
next
  case (Suc N)
  from Suc.prems have step: "get_next_invoice_number (Some (str_int C)) = (Some (str_int (C + 1)), Inr (C + 1))"
    by (rule get_next_canonical)
  from Suc.prems have "0 \<le> C + 1" by simp
  then have rest: "allocate_n N (Some (str_int (C + 1))) =
      (map (\<lambda>k. Inr (C + 1 + int k)) [1..<Suc N], Some (str_int (C + 1 + int N)))"
    by (rule Suc.IH)
  have "[Suc (Suc 0)..<Suc (Suc N)] = map Suc [Suc 0..<Suc N]"
    by (simp only: map_Suc_upt)
  then have "map (\<lambda>k. Inr (C + int k) :: exn + int) [Suc (Suc 0)..<Suc (Suc N)] =
      map (\<lambda>k. Inr (C + 1 + int k)) [Suc 0..<Suc N]"
    by (simp add: o_def add.assoc del: upt_Suc)
  moreover have "[Suc 0..<Suc (Suc N)] = Suc 0 # [Suc (Suc 0)..<Suc (Suc N)]"
    by (simp add: upt_conv_Cons del: upt_Suc)
  ultimately show ?case
    using step rest by (simp add: add.assoc del: upt_Suc)
qed

section \<open>The invoice sequence allocator\<close>

text \<open>
  The program itself writes the counter as the decimal text of a non-negative number,
  without sign, leading zero or whitespace.  Starting from such a file with the number
  \<open>C\<close>, \<open>N\<close> calls of \<open>get_next_invoice_number\<close> in a row return
  \<open>C + 1\<close>, \<open>C + 2\<close>, ..., \<open>C + N\<close> in this order; every single call
  returns the successor of the number it read and leaves its text in the file, so the
  file ends with the text of \<open>C + N\<close>.
\<close>

lemma allocation_on_canonical_text:
  assumes "0 \<le> C"
  shows "fst (allocate_n N (Some (str_int C))) = map (\<lambda>k. Inr (C + int k)) [1..<Suc N] \<and>
         snd (allocate_n N (Some (str_int C))) = Some (str_int (C + int N)) \<and>
         get_next_invoice_number (Some (str_int C)) = (Some (str_int (C + 1)), Inr (C + 1))"
  using assms by (simp add: allocate_n_canonical get_next_canonical del: upt_Suc)

text \<open>
  One call of \<open>get_next_invoice_number\<close> on such a file leaves a file whose whole
  content is the decimal text of the returned number \<open>C + 1\<close>: the new text is at
  least as long as the old one, so nothing of the old content is left behind it.  Reading
  the file again, as the next call does, gives \<open>C + 1\<close>.
\<close>

lemma rewrite_on_canonical_text:
  assumes "0 \<le> C"
  shows "get_next_invoice_number (Some (str_int C)) = (Some (str_int (C + 1)), Inr (C + 1)) \<and>
         py_int (strip (str_int (C + 1))) = Inr (C + 1)"
proof -
  from assms have "str_int (C + 1) = str_nat (nat (C + 1))"
    by (simp add: str_int_def)
  moreover from assms have "int (nat (C + 1)) = C + 1"
    by simp
  ultimately have "py_int (strip (str_int (C + 1))) = Inr (C + 1)"
    by (simp only: strip_str_nat py_int_str_nat)
  with assms show ?thesis
    by (simp add: get_next_canonical)
qed

text \<open>
  C1.  \<open>N\<close> calls of \<open>get_next_invoice_number\<close> in a row are to return
  \<open>C + 1\<close>, ..., \<open>C + N\<close> for every non-negative counter value \<open>C\<close> that
  the file holds.  The code does not: it opens the file with \<open>r+\<close> and writes
  the new text at the start without truncating the file, so whatever of the old text
  lies behind the new text stays and is read as part of the number by the next call.
  A file with the text \<open>007\<close>, which is read as 7, yields 8, 808, 809; a file with
  the text 7 after one space yields 8, 88, 89.
\<close>

theorem allocation_after_padded_counter:
  "py_int (strip ''007'') = Inr 7 \<and>
   fst (allocate_n 3 (Some ''007'')) = [Inr 8, Inr 808, Inr 809] \<and>
   py_int (strip '' 7'') = Inr 7 \<and>
   fst (allocate_n 3 (Some '' 7'')) = [Inr 8, Inr 88, Inr 89]"
  by code_simp

text \<open>
  C2.  After one call of \<open>get_next_invoice_number\<close> the whole content of the file
  is to be the decimal text of the returned number, with nothing of the old value left
  behind it, for every non-negative counter value that the file holds.  The code does
  not truncate the file: on the text \<open>007\<close> it returns 8 and leaves \<open>807\<close>,
  which reads as 807; on the text 7 after one space it returns 8 and leaves \<open>87\<close>.
\<close>

theorem stale_characters_after_allocation:
  "get_next_invoice_number (Some ''007'') = (Some ''807'', Inr 8) \<and>
   str_int 8 = ''8'' \<and>
   py_int (strip ''807'') = Inr 807 \<and>
   get_next_invoice_number (Some '' 7'') = (Some ''87'', Inr 8) \<and>
   py_int (strip ''87'') = Inr 87"
  by code_simp

text \<open>
  C9.  \<open>verify_invoice_number_file\<close> creates a missing counter file with the content
  \<open>0\<close>, which reads as the number 0, and leaves an existing file as it is, whatever
  it holds; so does any number of calls in a row.
\<close>

theorem verify_idempotent:
  "verify_invoice_number_file None = Some ''0'' \<and>
   py_int (strip ''0'') = Inr 0 \<and>
   verify_invoice_number_file (Some s) = Some s \<and>
   (verify_invoice_number_file ^^ n) (Some s) = Some s \<and>
   (verify_invoice_number_file ^^ Suc n) None = Some ''0'' \<and>
   verify_invoice_number_file (verify_invoice_number_file file) = verify_invoice_number_file file"
proof -
  have some: "(verify_invoice_number_file ^^ k) (Some t) = Some t" for k t
    by (induction k) (simp_all add: verify_invoice_number_file_def)
  have "str_nat 0 = ''0''"
    by code_simp
  then have zero: "py_int (strip ''0'') = Inr 0"
    using py_int_str_nat [of 0] strip_str_nat [of 0] by simp
  have "(verify_invoice_number_file ^^ Suc n) None = (verify_invoice_number_file ^^ n) (Some ''0'')"
    by (simp add: funpow_swap1 verify_invoice_number_file_def)
  with some zero show ?thesis
    by (simp add: verify_invoice_number_file_def split: option.split)
qed

theorem verify_idempotent_witness:
  "verify_invoice_number_file (verify_invoice_number_file (Some ''17'')) = Some ''17'' \<and>
   verify_invoice_number_file (verify_invoice_number_file None) = Some ''0''"
  using verify_idempotent [of "''17''" 2 "Some ''17''"] verify_idempotent [of "''17''" 2 None]
  by (simp add: verify_invoice_number_file_def)

section \<open>The configuration loader\<close>

lemma set_strip: "set (strip s) \<subseteq> set s"
proof -
  have "set (strip s) \<subseteq> set (dropWhile is_space s)"
    unfolding strip_def using set_dropWhileD [of _ is_space "rev (dropWhile is_space s)"] by auto
  also have "\<dots> \<subseteq> set s"
    using set_dropWhileD [of _ is_space s] by auto
  finally show ?thesis .
qed

lemma load_line_no_eq: "CHR ''='' \<notin> set l \<Longrightarrow> load_line l self = Inl ValueError"
  using set_strip [of l] by (auto simp: load_line_def split_first_eq_def)

lemma load_line_error: "load_line l self = Inl e \<Longrightarrow> e = ValueError"
  by (auto simp: load_line_def split: list.splits)

lemma load_lines_no_eq:
  "l \<in> set lines \<Longrightarrow> CHR ''='' \<notin> set l \<Longrightarrow> load_lines lines self = Inl ValueError"
proof (induction lines arbitrary: self)
  case Nil
  then show ?case by simp
next
  case (Cons x xs)
  show ?case
  proof (cases "load_line x self")
    case (Inl e)
    then show ?thesis by (simp add: load_line_error)
  next
    case (Inr self')
    with Cons.prems have "x \<noteq> l"
      by (auto simp: load_line_no_eq)
    with Cons.prems have "l \<in> set xs" by simp
    then have "load_lines xs self' = Inl ValueError"
      using Cons.prems(2) by (rule Cons.IH)
    with Inr show ?thesis by simp
  qed
qed

text \<open>
  C5, as the code has it.  When a line of the configuration file has no \<open>=\<close>,
  \<open>load_config\<close> does not skip the line: the call, and with it the constructor, is
  left by a \<open>ValueError\<close> that nothing catches.  No error dialog reports it.
\<close>

theorem malformed_config_line:
  assumes "l \<in> set lines" and "CHR ''='' \<notin> set l"
  shows "load_config file_path (Some lines) self = Inl ValueError \<and>
         \<not> reports_error (load_config file_path (Some lines) self) \<and>
         (config_file files = Some lines \<longrightarrow> init today files = Inl ValueError)"
  using load_lines_no_eq [OF assms]
  by (simp add: load_config_def reports_error_def init_def then_do_def)

theorem malformed_config_line_witness:
  "'''' \<in> set [''company_name=Acme'', '''', ''address=1 Main St''] \<and> CHR ''='' \<notin> set '''' \<and>
   load_config ''config.txt'' (Some [''company_name=Acme'', '''', ''address=1 Main St'']) new_app
     = Inl ValueError"
  using malformed_config_line [of "''''" "[''company_name=Acme'', '''', ''address=1 Main St'']" "''config.txt''" new_app]
  by simp

text \<open>
  The call on a configuration whose second line has no \<open>=\<close> is left by the
  \<open>ValueError\<close> of the unpacking; it does not end by reporting an error.
\<close>

theorem malformed_config_line_unreported:
  "load_config ''config.txt'' (Some [''company_name=Acme'', ''address'']) new_app = Inl ValueError \<and>
   \<not> reports_error (load_config ''config.txt'' (Some [''company_name=Acme'', ''address'']) new_app)"
  by code_simp

section \<open>The invoice document renderer\<close>

lemma then_do_Inr: "then_do r f = Inr v \<longleftrightarrow> (\<exists>x. r = Inr x \<and> f x = Inr v)"
  by (cases r) (simp_all add: then_do_def)

lemma generate_invoice_Generated:
  assumes "generate_invoice self files = (files', Generated f)"
  shows "\<exists>c n ops. fields_missing self = Inr False \<and>
           get_next_invoice_number (counter_file files) = (c, Inr n) \<and>
           draw_invoice self (files\<lparr>counter_file := c\<rparr>) n = Inr ops \<and>
           f = ''invoices/Invoice_'' @ str_int n @ ''.pdf'' \<and>
           files' = files\<lparr>counter_file := c, pdf_files := (pdf_files files)(f \<mapsto> ops)\<rparr>"
  using assms
  by (auto simp: generate_invoice_def Let_def split: sum.splits bool.splits prod.splits if_splits)

lemma draw_invoice_Inr:
  assumes "draw_invoice self files n = Inr ops"
  shows "\<exists>head rows y t foot. header_ops self files n = Inr head \<and>
           draw_items 0 (FromTop 95) (PyInt 0) (line_items self) = Inr (rows, y, t) \<and>
           footer_ops self files y t = Inr foot \<and> ops = head @ rows @ foot"
  using assms by (auto simp: draw_invoice_def then_do_Inr)

lemma header_ops_no_rect: "header_ops self files n = Inr head \<Longrightarrow> filter is_rect head = []"
  by (auto simp: header_ops_def then_do_Inr)

lemma footer_ops_no_rect: "footer_ops self files y t = Inr foot \<Longrightarrow> filter is_rect foot = []"
  by (auto simp: footer_ops_def then_do_Inr)

lemma row_text_no_rect: "filter is_rect (row_text y item) = []"
  by (cases item) (simp add: row_text_def)

lemma draw_items_error: "draw_items i y s items = Inl e \<Longrightarrow> e = ValueError"
  by (induction i y s items rule: draw_items.induct) (auto split: sum.splits if_splits)

lemma draw_items_bad_rate:
  assumes "(d, de, lo, r) \<in> set items" and "\<not> py_float_ok r"
  shows "draw_items i y s items = Inl ValueError"
proof -
  from assms have "\<exists>e. draw_items i y s items = Inl e"
    by (induction i y s items rule: draw_items.induct) (auto split: sum.splits)
  then show ?thesis
    by (auto dest: draw_items_error)
qed

text \<open>The loop draws the rows one after the other, each 10 mm below the one before, and
  adds the rates to the subtotal in the order of the list.\<close>

lemma upt_0_Suc: "[0..<Suc n] = 0 # map Suc [0..<n]"
  by (simp add: upt_conv_Cons map_Suc_upt del: upt_Suc)

lemma draw_items_rows:
  "draw_items i (FromTop y0) s items = Inr (ops, y_end, t) \<Longrightarrow>
   ops = concat (map (\<lambda>k. row_ops (i + k) (FromTop (y0 + 10 * int k)) (items ! k)) [0..<length items])
   \<and> y_end = FromTop (y0 + 10 * int (length items))
   \<and> t = foldl (\<lambda>acc item. Add acc (PyFloat (snd (snd (snd item))))) s items"
proof (induction items arbitrary: i y0 s ops)
  case Nil
  then show ?case by simp
next
  case (Cons item items)
  obtain d de lo r where item: "item = (d, de, lo, r)"
    by (cases item) auto
  from Cons.prems item obtain ops' where
    rest: "draw_items (Suc i) (FromTop (y0 + 10)) (Add s (PyFloat r)) items = Inr (ops', y_end, t)"
    and ops: "ops = row_ops i (FromTop y0) item @ ops'"
    by (auto split: if_splits sum.splits)
  note IH = Cons.IH [OF rest]
  have "concat (map (\<lambda>k. row_ops (i + k) (FromTop (y0 + 10 * int k)) ((item # items) ! k)) [0..<length (item # items)])
      = row_ops i (FromTop y0) item
        @ concat (map (\<lambda>k. row_ops (Suc i + k) (FromTop (y0 + 10 + 10 * int k)) (items ! k)) [0..<length items])"
    by (simp add: upt_0_Suc o_def algebra_simps del: upt_Suc)
  with IH ops item show ?case
    by (simp add: algebra_simps del: upt_Suc)
qed

lemma filter_rect_rows:
  "filter is_rect (concat (map (\<lambda>k. row_ops k (row_y k) (items ! k)) ks)) = map band (filter odd ks)"
  by (induction ks) (simp_all add: row_ops_def row_text_no_rect row_y_def band_def odd_iff_mod_2_eq_one)

lemma header_ops_optional_fields:
  assumes "header_ops self files n = Inr head"
    and "email self = Some e1" and "customer_email self = Some e2"
    and "customer_address self = Some e3" and "customer_city self = Some e4"
  shows "DrawRightString (FromRight 20) (FromTop 25) e1 \<in> set head \<and>
         DrawString (FromLeft 20) (FromTop 60) e2 \<in> set head \<and>
         DrawString (FromLeft 20) (FromTop 65) e3 \<in> set head \<and>
         DrawString (FromLeft 20) (FromTop 70) e4 \<in> set head"
  using assms by (auto simp: header_ops_def then_do_Inr attr_def)

lemma generate_invoice_counter:
  "counter_file (fst (generate_invoice self files)) =
     (case fields_missing self of
        Inr False \<Rightarrow> fst (get_next_invoice_number (counter_file files))
      | _ \<Rightarrow> counter_file files)"
  by (auto simp: generate_invoice_def Let_def split: sum.splits bool.splits prod.splits)
text \<open>
  C3.  When the customer name is empty, \<open>generate_invoice\<close> shows the error dialog
  ``Please fill in all fields.'' and returns: the counter file is neither read nor
  written, no document is written, nothing on disk changes.  (\<open>form_built\<close>: the
  object left the constructor, so the fields of the form exist.)
\<close>

theorem validation_gate_empty_customer_name:
  assumes "form_built self" and "customer_name self = Some []"
  shows "generate_invoice self files = (files, ShowError ''Please fill in all fields.'')"
proof -
  from assms obtain v1 v2 v3 where
    "company_name self = Some v1" "address self = Some v2" "city_st_zip self = Some v3"
    by (auto simp: form_built_def)
  with assms(2) have "fields_missing self = Inr True"
    by (simp add: fields_missing_def)
  then show ?thesis
    by (simp add: generate_invoice_def)
qed

theorem validation_gate_empty_customer_name_witness:
  "form_built (example_app\<lparr>customer_name := Some []\<rparr>) \<and>
   customer_name (example_app\<lparr>customer_name := Some []\<rparr>) = Some [] \<and>
   generate_invoice (example_app\<lparr>customer_name := Some []\<rparr>) example_files
     = (example_files, ShowError ''Please fill in all fields.'') \<and>
   counter_file example_files = Some ''41''"
  using validation_gate_empty_customer_name [of "example_app\<lparr>customer_name := Some []\<rparr>" example_files]
  by (simp add: form_built_def example_app_def example_files_def)

text \<open>
  C7.  In every document that \<open>generate_invoice\<close> writes, the rows of the line items
  follow the header in the order of the list; the row of index \<open>k\<close> (from 0) starts
  with the light grey band exactly when \<open>k\<close> is odd, and the band comes before the
  four texts of the row.  These bands are the only rectangles of the document.
\<close>

theorem row_banding:
  assumes "generate_invoice self files = (files', Generated f)"
  shows "\<exists>head foot ops.
           pdf_files files' f = Some ops \<and>
           ops = head
             @ concat (map (\<lambda>k. (if odd k then [SetFillColor light_grey, band k] else [])
                                  @ row_text (row_y k) (line_items self ! k))
                           [0..<length (line_items self)])
             @ foot \<and>
           filter is_rect head = [] \<and> filter is_rect foot = [] \<and>
           filter is_rect ops = map band (filter odd [0..<length (line_items self)])"
proof -
  from assms obtain c n ops where
    draw: "draw_invoice self (files\<lparr>counter_file := c\<rparr>) n = Inr ops"
    and files': "files' = files\<lparr>counter_file := c, pdf_files := (pdf_files files)(f \<mapsto> ops)\<rparr>"
    using generate_invoice_Generated by blast
  from draw obtain head rows y t foot where
    head: "header_ops self (files\<lparr>counter_file := c\<rparr>) n = Inr head"
    and rows: "draw_items 0 (FromTop 95) (PyInt 0) (line_items self) = Inr (rows, y, t)"
    and foot: "footer_ops self (files\<lparr>counter_file := c\<rparr>) y t = Inr foot"
    and ops: "ops = head @ rows @ foot"
    using draw_invoice_Inr by blast
  let ?ks = "[0..<length (line_items self)]"
  from draw_items_rows [OF rows]
  have r1: "rows = concat (map (\<lambda>k. row_ops k (row_y k) (line_items self ! k)) ?ks)"
    by (simp add: row_y_def)
  have r2: "row_ops k (row_y k) item
      = (if odd k then [SetFillColor light_grey, band k] else []) @ row_text (row_y k) item" for k item
    by (simp add: row_ops_def row_y_def band_def odd_iff_mod_2_eq_one)
  have "filter is_rect rows = map band (filter odd ?ks)"
    unfolding r1 by (rule filter_rect_rows)
  then have "filter is_rect ops = map band (filter odd ?ks)"
    using header_ops_no_rect [OF head] footer_ops_no_rect [OF foot] by (simp add: ops)
  moreover have "pdf_files files' f = Some ops"
    by (simp add: files')
  moreover have "ops = head
      @ concat (map (\<lambda>k. (if odd k then [SetFillColor light_grey, band k] else [])
                           @ row_text (row_y k) (line_items self ! k)) ?ks)
      @ foot"
    unfolding ops r1 r2 ..
  ultimately show ?thesis
    using header_ops_no_rect [OF head] footer_ops_no_rect [OF foot] by blast
qed

lemma example_generated:
  "snd (generate_invoice example_app example_files) = Generated ''invoices/Invoice_42.pdf''"
  by code_simp

theorem row_banding_witness:
  "generate_invoice example_app example_files
     = (fst (generate_invoice example_app example_files), Generated ''invoices/Invoice_42.pdf'') \<and>
   length (line_items example_app) = 5 \<and>
   map_option (filter is_rect)
     (pdf_files (fst (generate_invoice example_app example_files)) ''invoices/Invoice_42.pdf'')
   = Some [band 1, band 3]"
proof -
  have g: "generate_invoice example_app example_files
     = (fst (generate_invoice example_app example_files), Generated ''invoices/Invoice_42.pdf'')"
    using example_generated by (simp add: prod_eq_iff)
  have five: "length (line_items example_app) = 5"
    by (simp add: example_app_def)
  have odds: "filter odd [0..<5] = [1, 3::nat]"
    by code_simp
  from row_banding [OF g] five odds show ?thesis
    using g by auto
qed
text \<open>
  C8.  When the rate of a line item is not accepted by \<open>float\<close>, as the rate
  \<open>abc\<close> is not, \<open>generate_invoice\<close> never reaches \<open>save()\<close>: it writes no
  document, whatever else the object and the disk hold.  When the fields are filled, the
  invoice number is allocated and the header is drawn, the call is left by the
  \<open>ValueError\<close> of \<open>float\<close>.
\<close>

theorem rate_parse_failure:
  assumes "(d, de, lo, r) \<in> set (line_items self)" and "\<not> py_float_ok r"
  shows "pdf_files (fst (generate_invoice self files)) = pdf_files files \<and>
         (\<forall>f. snd (generate_invoice self files) \<noteq> Generated f) \<and>
         (fields_missing self = Inr False \<longrightarrow>
          get_next_invoice_number (counter_file files) = (c, Inr n) \<longrightarrow>
          header_ops self (files\<lparr>counter_file := c\<rparr>) n = Inr head \<longrightarrow>
          snd (generate_invoice self files) = Raised ValueError) \<and>
         \<not> py_float_ok ''abc''"
proof -
  have rows: "draw_items 0 (FromTop 95) (PyInt 0) (line_items self) = Inl ValueError"
    using assms by (rule draw_items_bad_rate)
  have no_doc: "draw_invoice self fs' m \<noteq> Inr ops" for fs' m ops
    using rows by (auto dest!: draw_invoice_Inr)
  have 1: "pdf_files (fst (generate_invoice self files)) = pdf_files files"
    using no_doc
    by (auto simp: generate_invoice_def Let_def split: sum.splits bool.splits prod.splits)
  have 2: "snd (generate_invoice self files) \<noteq> Generated f" for f
    using no_doc generate_invoice_Generated [of self files "fst (generate_invoice self files)" f]
    by (auto simp: prod_eq_iff)
  have 3: "snd (generate_invoice self files) = Raised ValueError"
    if "fields_missing self = Inr False"
      and "get_next_invoice_number (counter_file files) = (c, Inr n)"
      and "header_ops self (files\<lparr>counter_file := c\<rparr>) n = Inr head"
    using that rows by (simp add: generate_invoice_def draw_invoice_def then_do_def)
  have 4: "\<not> py_float_ok ''abc''"
    by code_simp
  from 1 2 3 4 show ?thesis by blast
qed

theorem rate_parse_failure_witness:
  "(''7 Jan'', ''Extras'', ''Office'', ''abc'')
     \<in> set (line_items (example_app\<lparr>line_items := line_items example_app @ [(''7 Jan'', ''Extras'', ''Office'', ''abc'')]\<rparr>)) \<and>
   \<not> py_float_ok ''abc'' \<and>
   snd (generate_invoice
         (example_app\<lparr>line_items := line_items example_app @ [(''7 Jan'', ''Extras'', ''Office'', ''abc'')]\<rparr>)
         example_files) = Raised ValueError \<and>
   pdf_files (fst (generate_invoice
         (example_app\<lparr>line_items := line_items example_app @ [(''7 Jan'', ''Extras'', ''Office'', ''abc'')]\<rparr>)
         example_files)) = pdf_files example_files"
proof -
  let ?a = "example_app\<lparr>line_items := line_items example_app @ [(''7 Jan'', ''Extras'', ''Office'', ''abc'')]\<rparr>"
  have m: "(''7 Jan'', ''Extras'', ''Office'', ''abc'') \<in> set (line_items ?a)"
    by simp
  have bad: "\<not> py_float_ok ''abc''"
    by code_simp
  have gate: "fields_missing ?a = Inr False"
    by code_simp
  have num: "get_next_invoice_number (counter_file example_files) = (Some ''42'', Inr 42)"
    by code_simp
  have "\<exists>head. header_ops ?a (example_files\<lparr>counter_file := Some ''42''\<rparr>) 42 = Inr head"
    by (simp add: header_ops_def then_do_def attr_def open_image_def example_app_def example_files_def)
  then obtain head where head: "header_ops ?a (example_files\<lparr>counter_file := Some ''42''\<rparr>) 42 = Inr head" ..
  from rate_parse_failure [OF m bad, of example_files "Some ''42''" 42 head] gate num head m bad
  show ?thesis by blast
qed

text \<open>
  C10.  The check at the head of \<open>generate_invoice\<close> reads the company name, the
  address, the city line, the date, the customer name, the phone number and the
  authorized signatory (which is the company name) and nothing else.  When these are
  filled, the check passes whatever the company email, the customer email, the customer
  address and the customer city hold: no error dialog is shown, the counter file is
  advanced as by \<open>get_next_invoice_number\<close>, and a document that gets written shows
  the four fields as they are, empty texts included.
\<close>

theorem gate_ignores_optional_fields:
  assumes "company_name self = Some v1" and "v1 \<noteq> []"
    and "address self = Some v2" and "v2 \<noteq> []"
    and "city_st_zip self = Some v3" and "v3 \<noteq> []"
    and "date self \<noteq> []"
    and "customer_name self = Some v4" and "v4 \<noteq> []"
    and "phone_no self = Some v5" and "v5 \<noteq> []"
  shows "fields_missing (self\<lparr>email := o1, customer_email := o2, customer_address := o3,
            customer_city := o4\<rparr>) = Inr False \<and>
         fields_missing self = Inr False \<and>
         authorized_signatory self = Some v1 \<and>
         (\<forall>msg. snd (generate_invoice self files) \<noteq> ShowError msg) \<and>
         counter_file (fst (generate_invoice self files))
           = fst (get_next_invoice_number (counter_file files)) \<and>
         (0 \<le> C \<longrightarrow> counter_file files = Some (str_int C) \<longrightarrow>
            counter_file (fst (generate_invoice self files)) = Some (str_int (C + 1))) \<and>
         (generate_invoice self files = (files', Generated f) \<longrightarrow>
          email self = Some e1 \<longrightarrow> customer_email self = Some e2 \<longrightarrow>
          customer_address self = Some e3 \<longrightarrow> customer_city self = Some e4 \<longrightarrow>
          (\<exists>ops. pdf_files files' f = Some ops \<and>
             DrawRightString (FromRight 20) (FromTop 25) e1 \<in> set ops \<and>
             DrawString (FromLeft 20) (FromTop 60) e2 \<in> set ops \<and>
             DrawString (FromLeft 20) (FromTop 65) e3 \<in> set ops \<and>
             DrawString (FromLeft 20) (FromTop 70) e4 \<in> set ops))"
proof -
  have gate: "fields_missing self = Inr False"
    using assms by (simp add: fields_missing_def authorized_signatory_def)
  have gate': "fields_missing (self\<lparr>email := o1, customer_email := o2, customer_address := o3,
            customer_city := o4\<rparr>) = Inr False"
    using assms by (simp add: fields_missing_def authorized_signatory_def)
  have sig: "authorized_signatory self = Some v1"
    using assms(1) by (simp add: authorized_signatory_def)
  have no_dialog: "snd (generate_invoice self files) \<noteq> ShowError msg" for msg
    using gate
    by (auto simp: generate_invoice_def Let_def split: sum.splits prod.splits)
  have counter: "counter_file (fst (generate_invoice self files))
           = fst (get_next_invoice_number (counter_file files))"
    using gate by (simp add: generate_invoice_counter)
  have consumed: "counter_file (fst (generate_invoice self files)) = Some (str_int (C + 1))"
    if "0 \<le> C" and "counter_file files = Some (str_int C)"
    using that counter by (simp add: get_next_canonical)
  have shown: "\<exists>ops. pdf_files files' f = Some ops \<and>
             DrawRightString (FromRight 20) (FromTop 25) e1 \<in> set ops \<and>
             DrawString (FromLeft 20) (FromTop 60) e2 \<in> set ops \<and>
             DrawString (FromLeft 20) (FromTop 65) e3 \<in> set ops \<and>
             DrawString (FromLeft 20) (FromTop 70) e4 \<in> set ops"
    if g: "generate_invoice self files = (files', Generated f)"
      and e: "email self = Some e1" "customer_email self = Some e2"
        "customer_address self = Some e3" "customer_city self = Some e4"
  proof -
    from g obtain c n ops where
      draw: "draw_invoice self (files\<lparr>counter_file := c\<rparr>) n = Inr ops"
      and files': "files' = files\<lparr>counter_file := c, pdf_files := (pdf_files files)(f \<mapsto> ops)\<rparr>"
      using generate_invoice_Generated by blast
    from draw obtain head rows foot where
      head: "header_ops self (files\<lparr>counter_file := c\<rparr>) n = Inr head"
      and ops: "ops = head @ rows @ foot"
      using draw_invoice_Inr by blast
    from header_ops_optional_fields [OF head e] ops files' show ?thesis
      by simp
  qed
  from gate gate' sig no_dialog counter consumed shown show ?thesis
    by blast
qed

theorem gate_ignores_optional_fields_witness:
  "email example_app = Some '''' \<and> customer_email example_app = Some '''' \<and>
   customer_address example_app = Some '''' \<and> customer_city example_app = Some '''' \<and>
   snd (generate_invoice example_app example_files) = Generated ''invoices/Invoice_42.pdf'' \<and>
   counter_file (fst (generate_invoice example_app example_files)) = Some ''42'' \<and>
   (\<exists>ops. pdf_files (fst (generate_invoice example_app example_files)) ''invoices/Invoice_42.pdf''
             = Some ops \<and>
      DrawRightString (FromRight 20) (FromTop 25) '''' \<in> set ops \<and>
      DrawString (FromLeft 20) (FromTop 60) '''' \<in> set ops \<and>
      DrawString (FromLeft 20) (FromTop 65) '''' \<in> set ops \<and>
      DrawString (FromLeft 20) (FromTop 70) '''' \<in> set ops)"
proof -
  have g: "generate_invoice example_app example_files
     = (fst (generate_invoice example_app example_files), Generated ''invoices/Invoice_42.pdf'')"
    using example_generated by (simp add: prod_eq_iff)
  have s: "str_int 41 = ''41''" "str_int (41 + 1) = ''42''"
    by code_simp+
  have c: "counter_file example_files = Some (str_int 41)"
    by (simp add: example_files_def s)
  have num: "get_next_invoice_number (Some ''41'') = (Some ''42'', Inr 42)"
    by code_simp
  have e: "email example_app = Some ''''" "customer_email example_app = Some ''''"
    "customer_address example_app = Some ''''" "customer_city example_app = Some ''''"
    by (simp_all add: example_app_def)
  have "company_name example_app = Some ''Acme Ltd''" "''Acme Ltd'' \<noteq> []"
    "address example_app = Some ''1 Main Street''" "''1 Main Street'' \<noteq> []"
    "city_st_zip example_app = Some ''Springfield, IL 62701''" "''Springfield, IL 62701'' \<noteq> []"
    "date example_app \<noteq> []"
    "customer_name example_app = Some ''Jane Doe''" "''Jane Doe'' \<noteq> []"
    "phone_no example_app = Some ''555-0100''" "''555-0100'' \<noteq> []"
    by (simp_all add: example_app_def)
  from gate_ignores_optional_fields [OF this, of _ _ _ _ example_files 41
      "fst (generate_invoice example_app example_files)" "''invoices/Invoice_42.pdf''"
      "''''" "''''" "''''" "''''"]
  show ?thesis
    using g c e s num example_generated by simp
qed

subsection \<open>The subtotal\<close>

lemma item_rate_eq: "item_rate item = snd (snd (snd item))"
  by (cases item) (simp add: item_rate_def)

lemma header_ops_no_amount: "header_ops self files n = Inr head \<Longrightarrow> filter is_amount head = []"
  by (auto simp: header_ops_def then_do_Inr)

lemma row_ops_no_amount: "filter is_amount (row_ops k y item) = []"
  by (cases item) (simp add: row_ops_def row_text_def)

lemma footer_ops_amount:
  "footer_ops self files y t = Inr foot \<Longrightarrow>
   filter is_amount foot = [DrawRightAmount (FromRight 30) (below y 10) t]"
  by (auto simp: footer_ops_def then_do_Inr)

lemma draw_items_all_ok:
  "draw_items i y s items = Inr r \<Longrightarrow> list_all py_float_ok (map item_rate items)"
  by (induction i y s items arbitrary: r rule: draw_items.induct)
     (auto simp: item_rate_def split: if_splits sum.splits)

lemma draw_items_total:
  "list_all py_float_ok (map item_rate items) \<Longrightarrow>
   \<exists>ops y_end. draw_items i y s items
      = Inr (ops, y_end, foldl (\<lambda>acc r. Add acc (PyFloat r)) s (map item_rate items))"
  by (induction i y s items rule: draw_items.induct) (auto simp: item_rate_def)

lemma pynum_value_foldl:
  "pynum_value (foldl (\<lambda>acc r. Add acc (PyFloat r)) a rs)
   = foldl (\<lambda>acc r. fadd acc (float_value r)) (pynum_value a) rs"
  by (induction rs arbitrary: a) simp_all

lemma float_of_int_0: "float_of_int 0 = Finite 0 0"
  by (simp add: float_of_int_def)

lemma example_subtotal:
  "foldl (\<lambda>acc r. fadd acc (float_value r)) (Finite 0 0) [''10.00'', ''20.50'', ''5.25'']
   = Finite 5031365208702976 (- 47)"
proof -
  have v: "float_value ''10.00'' = Finite 5629499534213120 (- 49)"
    "float_value ''20.50'' = Finite 5770237022568448 (- 48)"
    "float_value ''5.25'' = Finite 5910974510923776 (- 50)"
    by code_simp+
  have a1: "fadd (Finite 0 0) (Finite 5629499534213120 (- 49)) = Finite 5629499534213120 (- 49)"
    by (simp add: round_double_def round_half_even_def Let_def bitlen.simps)
  have a2: "fadd (Finite 5629499534213120 (- 49)) (Finite 5770237022568448 (- 48))
      = Finite 8584986789675008 (- 48)"
    by (simp add: round_double_def round_half_even_def Let_def bitlen.simps)
  have a3: "fadd (Finite 8584986789675008 (- 48)) (Finite 5910974510923776 (- 50))
      = Finite 5031365208702976 (- 47)"
    by (simp add: round_double_def round_half_even_def Let_def bitlen.simps)
  show ?thesis
    by (simp only: foldl.simps v a1 a2 a3)
qed

lemma example_subtotal_text: "format_2f (Finite 5031365208702976 (- 47)) = ''35.75''"
  by code_simp

text \<open>
  C6.  Every document that \<open>generate_invoice\<close> writes draws one amount, the total.
  Its value is the floating-point sum of the rates of the line items, each read by
  \<open>float\<close> and added to the running subtotal in the order of the list, starting
  from 0; its text is that sum in the format \<open>.2f\<close> after a dollar sign and a
  space.  All rates of such a document are accepted by \<open>float\<close>; and whenever all
  rates of the list are accepted by \<open>float\<close>, the loop over the line items ends
  with this sum as the subtotal.  For the rates 10.00, 20.50 and 5.25 the text is
  \<open>$ 35.75\<close>.
\<close>

theorem subtotal_in_input_order:
  "(generate_invoice self files = (files', Generated f) \<longrightarrow>
      list_all py_float_ok (map item_rate (line_items self)) \<and>
      (\<exists>ops y. pdf_files files' f = Some ops \<and>
         filter is_amount ops
           = [DrawRightAmount (FromRight 30) y
                (foldl (\<lambda>acc r. Add acc (PyFloat r)) (PyInt 0) (map item_rate (line_items self)))] \<and>
         map op_text (filter is_amount ops)
           = [Some (''$ '' @ format_2f (foldl (\<lambda>acc r. fadd acc (float_value r)) (Finite 0 0)
                                           (map item_rate (line_items self))))])) \<and>
   (list_all py_float_ok (map item_rate items) \<longrightarrow>
      (\<exists>rows y. draw_items 0 (FromTop 95) (PyInt 0) items
           = Inr (rows, y, foldl (\<lambda>acc r. Add acc (PyFloat r)) (PyInt 0) (map item_rate items)))) \<and>
   amount_text (foldl (\<lambda>acc r. Add acc (PyFloat r)) (PyInt 0) [''10.00'', ''20.50'', ''5.25''])
     = ''$ 35.75''"
proof -
  let ?rates = "map item_rate (line_items self)"
  let ?sum = "foldl (\<lambda>acc r. Add acc (PyFloat r)) (PyInt 0) ?rates"
  let ?doc = "\<exists>ops y. pdf_files files' f = Some ops \<and>
            filter is_amount ops = [DrawRightAmount (FromRight 30) y ?sum] \<and>
            map op_text (filter is_amount ops)
              = [Some (''$ '' @ format_2f (foldl (\<lambda>acc r. fadd acc (float_value r)) (Finite 0 0) ?rates))]"
  have loop: "\<exists>rows y. draw_items 0 (FromTop 95) (PyInt 0) items
              = Inr (rows, y, foldl (\<lambda>acc r. Add acc (PyFloat r)) (PyInt 0) (map item_rate items))"
    if "list_all py_float_ok (map item_rate items)"
    using that by (rule draw_items_total)
  have "pynum_value (foldl (\<lambda>acc r. Add acc (PyFloat r)) (PyInt 0) [''10.00'', ''20.50'', ''5.25''])
      = foldl (\<lambda>acc r. fadd acc (float_value r)) (Finite 0 0) [''10.00'', ''20.50'', ''5.25'']"
    by (simp only: pynum_value_foldl pynum_value.simps float_of_int_0)
  then have ex: "amount_text (foldl (\<lambda>acc r. Add acc (PyFloat r)) (PyInt 0) [''10.00'', ''20.50'', ''5.25''])
           = ''$ 35.75''"
    by (simp only: amount_text_def example_subtotal example_subtotal_text) simp
  have main: "list_all py_float_ok ?rates \<and> ?doc"
    if gen: "generate_invoice self files = (files', Generated f)"
  proof -
  from gen obtain c n ops where
    draw: "draw_invoice self (files\<lparr>counter_file := c\<rparr>) n = Inr ops"
    and files': "files' = files\<lparr>counter_file := c, pdf_files := (pdf_files files)(f \<mapsto> ops)\<rparr>"
    using generate_invoice_Generated by blast
  from draw obtain head rows y t foot where
    head: "header_ops self (files\<lparr>counter_file := c\<rparr>) n = Inr head"
    and rows: "draw_items 0 (FromTop 95) (PyInt 0) (line_items self) = Inr (rows, y, t)"
    and foot: "footer_ops self (files\<lparr>counter_file := c\<rparr>) y t = Inr foot"
    and ops: "ops = head @ rows @ foot"
    using draw_invoice_Inr by blast
  from draw_items_rows [OF rows]
  have r: "rows = concat (map (\<lambda>k. row_ops (0 + k) (FromTop (95 + 10 * int k)) (line_items self ! k))
                              [0..<length (line_items self)])"
    and t: "t = foldl (\<lambda>acc item. Add acc (PyFloat (snd (snd (snd item))))) (PyInt 0) (line_items self)"
    by simp_all
  have t': "t = ?sum"
    unfolding t by (simp add: foldl_map item_rate_eq)
  have "filter is_amount rows = []"
    unfolding r by (simp add: filter_concat o_def row_ops_no_amount)
  with header_ops_no_amount [OF head] footer_ops_amount [OF foot]
  have one: "filter is_amount ops = [DrawRightAmount (FromRight 30) (below y 10) ?sum]"
    by (simp add: ops t')
  have "pynum_value ?sum = foldl (\<lambda>acc r. fadd acc (float_value r)) (Finite 0 0) ?rates"
    by (simp add: pynum_value_foldl float_of_int_0)
  then have txt_eq: "map op_text (filter is_amount ops)
      = [Some (''$ '' @ format_2f (foldl (\<lambda>acc r. fadd acc (float_value r)) (Finite 0 0) ?rates))]"
    by (simp add: one amount_text_def)
  have ok: "list_all py_float_ok ?rates"
    using rows by (rule draw_items_all_ok)
  have doc: "pdf_files files' f = Some ops"
    by (simp add: files')
  have ?doc
  proof (intro exI conjI)
    show "pdf_files files' f = Some ops" by (rule doc)
    show "filter is_amount ops = [DrawRightAmount (FromRight 30) (below y 10) ?sum]" by (rule one)
    show "map op_text (filter is_amount ops)
              = [Some (''$ '' @ format_2f (foldl (\<lambda>acc r. fadd acc (float_value r)) (Finite 0 0) ?rates))]"
      by (rule txt_eq)
  qed
  with ok show ?thesis
    by (intro conjI)
  qed
  show ?thesis
  proof (intro conjI)
    show "generate_invoice self files = (files', Generated f) \<longrightarrow> list_all py_float_ok ?rates \<and> ?doc"
      using main by (intro impI)
    show "list_all py_float_ok (map item_rate items) \<longrightarrow>
      (\<exists>rows y. draw_items 0 (FromTop 95) (PyInt 0) items
           = Inr (rows, y, foldl (\<lambda>acc r. Add acc (PyFloat r)) (PyInt 0) (map item_rate items)))"
      using loop by (intro impI)
    show "amount_text (foldl (\<lambda>acc r. Add acc (PyFloat r)) (PyInt 0) [''10.00'', ''20.50'', ''5.25''])
           = ''$ 35.75''"
      by (rule ex)
  qed
qed

theorem subtotal_in_input_order_witness:
  "generate_invoice subtotal_example example_files
     = (fst (generate_invoice subtotal_example example_files), Generated ''invoices/Invoice_42.pdf'') \<and>
   map item_rate (line_items subtotal_example) = [''10.00'', ''20.50'', ''5.25''] \<and>
   list_all py_float_ok [''10.00'', ''20.50'', ''5.25''] \<and>
   map_option (\<lambda>ops. map op_text (filter is_amount ops))
     (pdf_files (fst (generate_invoice subtotal_example example_files)) ''invoices/Invoice_42.pdf'')
   = Some [Some ''$ 35.75'']"
proof -
  have "snd (generate_invoice subtotal_example example_files) = Generated ''invoices/Invoice_42.pdf''"
    by code_simp
  then have g: "generate_invoice subtotal_example example_files
     = (fst (generate_invoice subtotal_example example_files), Generated ''invoices/Invoice_42.pdf'')"
    by (simp add: prod_eq_iff)
  have rates: "map item_rate (line_items subtotal_example) = [''10.00'', ''20.50'', ''5.25'']"
    by (simp add: subtotal_example_def item_rate_def)
  have sum: "format_2f (foldl (\<lambda>acc r. fadd acc (float_value r)) (Finite 0 0) [''10.00'', ''20.50'', ''5.25''])
     = ''35.75''"
    by (simp only: example_subtotal example_subtotal_text)
  have ok: "list_all py_float_ok [''10.00'', ''20.50'', ''5.25'']"
    by code_simp
  from subtotal_in_input_order [of subtotal_example example_files
      "fst (generate_invoice subtotal_example example_files)" "''invoices/Invoice_42.pdf''"
      "line_items subtotal_example"]
  show ?thesis
    using g ok by (auto simp: rates sum)
qed

section \<open>Date arithmetic\<close>

lemma div_decomp: "0 \<le> r \<Longrightarrow> r < k \<Longrightarrow> (k * q + r) div k = (q::int)"
  by (rule int_div_pos_eq [where r = r]) simp_all

lemma mod_decomp: "0 \<le> r \<Longrightarrow> r < k \<Longrightarrow> (k * q + r) mod k = (r::int)"
  by (rule int_mod_pos_eq [where q = q]) simp_all

lemma year_decomp:
  assumes "0 \<le> (Y::int)"
  obtains a b c e where "Y = 400 * a + 100 * b + 4 * c + e"
    and "0 \<le> a" and "0 \<le> b" and "b \<le> 3" and "0 \<le> c" and "c \<le> 24" and "0 \<le> e" and "e \<le> 3"
proof -
  define a where "a = Y div 400"
  define r where "r = Y mod 400"
  define b where "b = r div 100"
  define s where "s = r mod 100"
  define c where "c = s div 4"
  define e where "e = s mod 4"
  have Y: "Y = 400 * a + r" and r: "0 \<le> r" "r < 400"
    by (simp_all add: a_def r_def)
  have R: "r = 100 * b + s" and s: "0 \<le> s" "s < 100"
    by (simp_all add: b_def s_def)
  have S: "s = 4 * c + e" and e: "0 \<le> e" "e < 4"
    by (simp_all add: c_def e_def)
  have a: "0 \<le> a"
    using assms by (simp add: a_def pos_imp_zdiv_nonneg_iff)
  have b: "0 \<le> b" "b \<le> 3"
    using r R s by linarith+
  have c: "0 \<le> c" "c \<le> 24"
    using s S e by linarith+
  show thesis
  proof (rule that [of a b c e])
    show "Y = 400 * a + 100 * b + 4 * c + e"
      using Y R S by simp
  qed (use a b c e in auto)
qed

lemma days_before_year_decomp:
  assumes "0 \<le> b" "b \<le> 3" "0 \<le> c" "c \<le> 24" "0 \<le> e" "e \<le> (3::int)"
  shows "days_before_year (400 * a + 100 * b + 4 * c + e + 1)
         = 146097 * a + 36524 * b + 1461 * c + 365 * e"
proof -
  let ?Y = "400 * a + 100 * b + 4 * c + e"
  have "?Y = 4 * (100 * a + 25 * b + c) + e" by simp
  then have d4: "?Y div 4 = 100 * a + 25 * b + c"
    using assms by (simp only: div_decomp)
  have "?Y = 100 * (4 * a + b) + (4 * c + e)" by simp
  moreover have "0 \<le> 4 * c + e" "4 * c + e < 100" using assms by auto
  ultimately have d100: "?Y div 100 = 4 * a + b"
    by (simp only: div_decomp)
  have "?Y = 400 * a + (100 * b + 4 * c + e)" by simp
  moreover have "0 \<le> 100 * b + 4 * c + e" "100 * b + 4 * c + e < 400" using assms by auto
  ultimately have d400: "?Y div 400 = a"
    by (simp only: div_decomp)
  show ?thesis
    by (simp add: days_before_year_def d4 d100 d400)
qed

lemma is_leap_decomp:
  assumes "0 \<le> b" "b \<le> 3" "0 \<le> c" "c \<le> 24" "0 \<le> e" "e \<le> (3::int)"
  shows "is_leap (400 * a + 100 * b + 4 * c + e + 1) \<longleftrightarrow> e = 3 \<and> (c \<noteq> 24 \<or> b = 3)"
proof -
  let ?y = "400 * a + 100 * b + 4 * c + e + 1"
  have "?y = 4 * (100 * a + 25 * b + c) + (e + 1)" by simp
  then have m4: "?y mod 4 = (e + 1) mod 4"
    by (simp only: mod_mult_self4)
  have "?y = 100 * (4 * a + b) + (4 * c + e + 1)" by simp
  then have m100: "?y mod 100 = (4 * c + e + 1) mod 100"
    by (simp only: mod_mult_self4)
  have "?y = 400 * a + (100 * b + 4 * c + e + 1)" by simp
  then have m400: "?y mod 400 = (100 * b + 4 * c + e + 1) mod 400"
    by (simp only: mod_mult_self4)
  have e4: "(e + 1) mod 4 = 0 \<longleftrightarrow> e = 3"
    using assms(5,6) by presburger
  have c100: "(4 * c + e + 1) mod 100 = 0 \<longleftrightarrow> c = 24 \<and> e = 3"
  proof
    assume z: "(4 * c + e + 1) mod 100 = 0"
    have "0 < 4 * c + e + 1" "4 * c + e + 1 \<le> 100" using assms by auto
    with z have "4 * c + e + 1 = 100"
      by (metis mod_pos_pos_trivial order_le_less not_less_iff_gr_or_eq)
    with assms show "c = 24 \<and> e = 3" by presburger
  next
    assume "c = 24 \<and> e = 3"
    then show "(4 * c + e + 1) mod 100 = 0" by simp
  qed
  have b400: "(100 * b + 4 * c + e + 1) mod 400 = 0 \<longleftrightarrow> b = 3 \<and> c = 24 \<and> e = 3"
  proof
    assume z: "(100 * b + 4 * c + e + 1) mod 400 = 0"
    have "0 < 100 * b + 4 * c + e + 1" "100 * b + 4 * c + e + 1 \<le> 400" using assms by auto
    with z have "100 * b + 4 * c + e + 1 = 400"
      by (metis mod_pos_pos_trivial order_le_less not_less_iff_gr_or_eq)
    with assms show "b = 3 \<and> c = 24 \<and> e = 3" by presburger
  next
    assume "b = 3 \<and> c = 24 \<and> e = 3"
    then show "(100 * b + 4 * c + e + 1) mod 400 = 0" by simp
  qed
  show ?thesis
    unfolding is_leap_def m4 m100 m400 e4 c100 b400 by auto
qed


lemma month_day_all:
  "\<forall>L \<in> {True, False}. \<forall>m \<in> {1..12}. \<forall>d \<in> {1..(if m = 2 \<and> L then 29 else DAYS_IN_MONTH ! nat m)}.
     month_day (DAYS_BEFORE_MONTH ! nat m + (if m > 2 \<and> L then 1 else 0) + d - 1) L = (m, d)"
  by code_simp

lemma month_day_correct:
  assumes "1 \<le> m" "m \<le> 12" "1 \<le> d" "d \<le> days_in_month y m"
  shows "month_day (days_before_month y m + d - 1) (is_leap y) = (m, d)"
proof -
  have L: "is_leap y \<in> {True, False}"
    by simp
  have m: "m \<in> {1..12}"
    using assms by simp
  have d: "d \<in> {1..(if m = 2 \<and> is_leap y then 29 else DAYS_IN_MONTH ! nat m)}"
    using assms by (simp add: days_in_month_def)
  from month_day_all [rule_format, OF L m d] show ?thesis
    by (simp only: days_before_month_def)
qed

lemma ord2ymd_digits:
  assumes "n0 = 146097 * q400 + R" "0 \<le> R" "R < 146097"
    and "R = 36524 * q100 + S" "0 \<le> S" "S < 36524"
    and "S = 1461 * q4 + T" "0 \<le> T" "T < 1461"
    and "T = 365 * q1 + U" "0 \<le> U" "U < 365"
  shows "ord2ymd (n0 + 1) =
     (if q1 = 4 \<or> q100 = 4
      then \<lparr>year = 400 * q400 + 100 * q100 + 4 * q4 + q1, month = 12, day = 31\<rparr>
      else (case month_day U (q1 = 3 \<and> (q4 \<noteq> 24 \<or> q100 = 3)) of
              (m, d) \<Rightarrow> \<lparr>year = 400 * q400 + 1 + 100 * q100 + 4 * q4 + q1, month = m, day = d\<rparr>))"
proof -
  have d: "n0 div 146097 = q400" "n0 mod 146097 = R"
    "R div 36524 = q100" "R mod 36524 = S"
    "S div 1461 = q4" "S mod 1461 = T"
    "T div 365 = q1" "T mod 365 = U"
    using assms by (simp_all only: div_decomp mod_decomp)
  show ?thesis
    by (simp add: ord2ymd_def month_day_def Let_def d)
qed


lemma month_cases:
  assumes "1 \<le> (m::int)" "m \<le> 12"
  shows "m = 1 \<or> m = 2 \<or> m = 3 \<or> m = 4 \<or> m = 5 \<or> m = 6 \<or> m = 7 \<or> m = 8 \<or> m = 9 \<or> m = 10
         \<or> m = 11 \<or> m = 12"
  using assms by presburger

lemma yday_bounds:
  assumes "1 \<le> m" "m \<le> 12" "1 \<le> dd" "dd \<le> days_in_month y m"
  shows "0 \<le> days_before_month y m + dd - 1"
    and "days_before_month y m + dd - 1 \<le> (if is_leap y then 365 else 364)"
    and "days_before_month y m + dd - 1 = 365 \<Longrightarrow> m = 12 \<and> dd = 31"
  using month_cases [OF assms(1,2)] assms(3,4)
  by (auto simp: days_in_month_def days_before_month_def DAYS_IN_MONTH_def DAYS_BEFORE_MONTH_def
      split: if_splits)

lemma ord2ymd_toordinal:
  assumes "valid_date d"
  shows "ord2ymd (toordinal d) = d"
proof -
  from assms have v: "1 \<le> year d" "1 \<le> month d" "month d \<le> 12" "1 \<le> day d"
    "day d \<le> days_in_month (year d) (month d)"
    by (simp_all add: valid_date_def)
  from v(1) have "0 \<le> year d - 1" by simp
  then obtain a b c e where Y: "year d - 1 = 400 * a + 100 * b + 4 * c + e"
    and bd: "0 \<le> a" "0 \<le> b" "b \<le> 3" "0 \<le> c" "c \<le> 24" "0 \<le> e" "e \<le> 3"
    by (rule year_decomp)
  from Y have y: "year d = 400 * a + 100 * b + 4 * c + e + 1" by simp
  define r where "r = days_before_month (year d) (month d) + day d - 1"
  have dby: "days_before_year (year d) = 146097 * a + 36524 * b + 1461 * c + 365 * e"
    unfolding y using bd(2-) by (rule days_before_year_decomp)
  have leap: "is_leap (year d) \<longleftrightarrow> e = 3 \<and> (c \<noteq> 24 \<or> b = 3)"
    unfolding y using bd(2-) by (rule is_leap_decomp)
  have r0: "0 \<le> r" and r1: "r \<le> (if is_leap (year d) then 365 else 364)"
    and r365: "r = 365 \<Longrightarrow> month d = 12 \<and> day d = 31"
    unfolding r_def using yday_bounds [OF v(2-5)] by auto
  have ord: "toordinal d = (146097 * a + 36524 * b + 1461 * c + 365 * e + r) + 1"
    by (simp add: toordinal_def ymd2ord_def dby r_def)
  have whole: "d = \<lparr>year = year d, month = month d, day = day d\<rparr>"
    by simp
  show ?thesis
  proof (cases "r = 365")
    case False
    with r1 have r364: "r \<le> 364" by (auto split: if_splits)
    have "ord2ymd ((146097 * a + 36524 * b + 1461 * c + 365 * e + r) + 1) =
       (if e = 4 \<or> b = 4
        then \<lparr>year = 400 * a + 100 * b + 4 * c + e, month = 12, day = 31\<rparr>
        else (case month_day r (e = 3 \<and> (c \<noteq> 24 \<or> b = 3)) of
                (m, dd) \<Rightarrow> \<lparr>year = 400 * a + 1 + 100 * b + 4 * c + e, month = m, day = dd\<rparr>))"
    proof (rule ord2ymd_digits)
      show "146097 * a + 36524 * b + 1461 * c + 365 * e + r
            = 146097 * a + (36524 * b + 1461 * c + 365 * e + r)" by simp
      show "0 \<le> 36524 * b + 1461 * c + 365 * e + r" using bd r0 by simp
      show "36524 * b + 1461 * c + 365 * e + r < 146097" using bd r364 by simp
      show "36524 * b + 1461 * c + 365 * e + r = 36524 * b + (1461 * c + 365 * e + r)" by simp
      show "0 \<le> 1461 * c + 365 * e + r" using bd r0 by simp
      show "1461 * c + 365 * e + r < 36524" using bd r364 by simp
      show "1461 * c + 365 * e + r = 1461 * c + (365 * e + r)" by simp
      show "0 \<le> 365 * e + r" using bd r0 by simp
      show "365 * e + r < 1461" using bd r364 by simp
      show "365 * e + r = 365 * e + r" by simp
      show "0 \<le> r" by (rule r0)
      show "r < 365" using r364 by simp
    qed
    moreover have "month_day r (is_leap (year d)) = (month d, day d)"
      unfolding r_def using v(2-5) by (rule month_day_correct)
    then have "month_day r (e = 3 \<and> (c \<noteq> 24 \<or> b = 3)) = (month d, day d)"
      by (simp only: leap)
    ultimately have "ord2ymd (toordinal d) = \<lparr>year = year d, month = month d, day = day d\<rparr>"
      using bd by (simp add: ord y)
    then show ?thesis by simp
  next
    case True
    with r1 have L: "is_leap (year d)" by (auto split: if_splits)
    with leap have e: "e = 3" and cb: "c \<noteq> 24 \<or> b = 3" by auto
    from r365 [OF True] have md: "month d = 12" "day d = 31" by auto
    show ?thesis
    proof (cases "c = 24")
      case False
      with bd have c23: "c \<le> 23" by simp
      have "ord2ymd ((146097 * a + 36524 * b + 1461 * c + 365 * e + r) + 1) =
         (if (4::int) = 4 \<or> b = 4
          then \<lparr>year = 400 * a + 100 * b + 4 * c + 4, month = 12, day = 31\<rparr>
          else (case month_day 0 ((4::int) = 3 \<and> (c \<noteq> 24 \<or> b = 3)) of
                  (m, dd) \<Rightarrow> \<lparr>year = 400 * a + 1 + 100 * b + 4 * c + 4, month = m, day = dd\<rparr>))"
      proof (rule ord2ymd_digits)
        show "146097 * a + 36524 * b + 1461 * c + 365 * e + r
              = 146097 * a + (36524 * b + 1461 * c + 1460)" using e True by simp
        show "0 \<le> 36524 * b + 1461 * c + 1460" using bd by simp
        show "36524 * b + 1461 * c + 1460 < 146097" using bd c23 by simp
        show "36524 * b + 1461 * c + 1460 = 36524 * b + (1461 * c + 1460)" by simp
        show "0 \<le> 1461 * c + 1460" using bd by simp
        show "1461 * c + 1460 < 36524" using c23 by simp
        show "1461 * c + 1460 = 1461 * c + 1460" by simp
        show "(0::int) \<le> 1460" by simp
        show "(1460::int) < 1461" by simp
        show "(1460::int) = 365 * 4 + 0" by simp
        show "(0::int) \<le> 0" by simp
        show "(0::int) < 365" by simp
      qed
      then have "ord2ymd (toordinal d) = \<lparr>year = year d, month = month d, day = day d\<rparr>"
        by (simp add: ord y e md)
      then show ?thesis by simp
    next
      case True
      with cb have b: "b = 3" by simp
      have "ord2ymd ((146097 * a + 36524 * b + 1461 * c + 365 * e + r) + 1) =
         (if (0::int) = 4 \<or> (4::int) = 4
          then \<lparr>year = 400 * a + 100 * 4 + 4 * 0 + 0, month = 12, day = 31\<rparr>
          else (case month_day 0 ((0::int) = 3 \<and> ((0::int) \<noteq> 24 \<or> (4::int) = 3)) of
                  (m, dd) \<Rightarrow> \<lparr>year = 400 * a + 1 + 100 * 4 + 4 * 0 + 0, month = m, day = dd\<rparr>))"
      proof (rule ord2ymd_digits)
        show "146097 * a + 36524 * b + 1461 * c + 365 * e + r = 146097 * a + 146096"
          using e b True \<open>r = 365\<close> by simp
        show "(0::int) \<le> 146096" by simp
        show "(146096::int) < 146097" by simp
        show "(146096::int) = 36524 * 4 + 0" by simp
        show "(0::int) \<le> 0" by simp
        show "(0::int) < 36524" by simp
        show "(0::int) = 1461 * 0 + 0" by simp
        show "(0::int) \<le> 0" by simp
        show "(0::int) < 1461" by simp
        show "(0::int) = 365 * 0 + 0" by simp
        show "(0::int) \<le> 0" by simp
        show "(0::int) < 365" by simp
      qed
      then have "ord2ymd (toordinal d) = \<lparr>year = year d, month = month d, day = day d\<rparr>"
        by (simp add: ord y e b True md)
      then show ?thesis by simp
    qed
  qed
qed

lemma div_next:
  assumes "0 < (k::int)"
  shows "y div k = (y - 1) div k + (if y mod k = 0 then 1 else 0)"
proof -
  define q where "q = (y - 1) div k"
  define r where "r = (y - 1) mod k"
  have y1: "y - 1 = k * q + r" and r: "0 \<le> r" "r < k"
    using assms by (simp_all add: q_def r_def)
  show ?thesis
  proof (cases "r + 1 < k")
    case True
    have "y = k * q + (r + 1)" using y1 by simp
    moreover have "0 \<le> r + 1" using r by simp
    ultimately have "y div k = q" "y mod k = r + 1"
      using True by (simp_all only: div_decomp mod_decomp)
    with r show ?thesis by (simp add: q_def)
  next
    case False
    with r have "r + 1 = k" by simp
    with y1 have "y = k * (q + 1) + 0" by (simp add: algebra_simps)
    moreover have "(0::int) \<le> 0" by simp
    ultimately have "y div k = q + 1" "y mod k = 0"
      using assms by (simp_all only: div_decomp mod_decomp)
    then show ?thesis by (simp add: q_def)
  qed
qed

lemma days_before_year_next:
  "days_before_year (y + 1) = days_before_year y + (if is_leap y then 366 else 365)"
proof -
  have d4: "y div 4 = (y - 1) div 4 + (if y mod 4 = 0 then 1 else 0)"
    by (rule div_next) simp
  have d100: "y div 100 = (y - 1) div 100 + (if y mod 100 = 0 then 1 else 0)"
    by (rule div_next) simp
  have d400: "y div 400 = (y - 1) div 400 + (if y mod 400 = 0 then 1 else 0)"
    by (rule div_next) simp
  have i1: "y mod 4 = 0" if "y mod 100 = 0"
  proof -
    from that have "100 dvd y" by (simp add: dvd_eq_mod_eq_0)
    moreover have "(4::int) dvd 100" by simp
    ultimately have "4 dvd y" by (rule dvd_trans [rotated])
    then show ?thesis by (simp add: dvd_eq_mod_eq_0)
  qed
  have i2: "y mod 100 = 0" if "y mod 400 = 0"
  proof -
    from that have "400 dvd y" by (simp add: dvd_eq_mod_eq_0)
    moreover have "(100::int) dvd 400" by simp
    ultimately have "100 dvd y" by (rule dvd_trans [rotated])
    then show ?thesis by (simp add: dvd_eq_mod_eq_0)
  qed
  have "days_before_year (y + 1) = y * 365 + y div 4 - y div 100 + y div 400"
    by (simp add: days_before_year_def)
  also have "\<dots> = days_before_year y + 365
      + (if y mod 4 = 0 then 1 else 0) - (if y mod 100 = 0 then 1 else 0)
      + (if y mod 400 = 0 then 1 else 0)"
    unfolding days_before_year_def by (simp only: d4 d100 d400) (simp add: algebra_simps)
  also have "\<dots> = days_before_year y + (if is_leap y then 366 else 365)"
  proof (cases "y mod 400 = 0")
    case True
    then have "y mod 100 = 0" by (rule i2)
    then have "y mod 4 = 0" by (rule i1)
    with True \<open>y mod 100 = 0\<close> show ?thesis
      by (simp add: is_leap_def)
  next
    case n400: False
    show ?thesis
    proof (cases "y mod 100 = 0")
      case True
      then have "y mod 4 = 0" by (rule i1)
      with True n400 show ?thesis
        by (simp add: is_leap_def)
    next
      case False
      with n400 show ?thesis
        by (simp add: is_leap_def)
    qed
  qed
  finally show ?thesis .
qed

lemma days_before_month_next:
  assumes "1 \<le> m" "m \<le> 11"
  shows "days_before_month y (m + 1) = days_before_month y m + days_in_month y m"
proof -
  from assms have "m = 1 \<or> m = 2 \<or> m = 3 \<or> m = 4 \<or> m = 5 \<or> m = 6 \<or> m = 7 \<or> m = 8 \<or> m = 9
      \<or> m = 10 \<or> m = 11"
    by presburger
  then show ?thesis
    by (auto simp: days_in_month_def days_before_month_def DAYS_IN_MONTH_def DAYS_BEFORE_MONTH_def)
qed

lemma days_in_month_range:
  assumes "1 \<le> m" "m \<le> 12"
  shows "28 \<le> days_in_month y m \<and> days_in_month y m \<le> 31"
  using month_cases [OF assms]
  by (auto simp: days_in_month_def DAYS_IN_MONTH_def)

lemma days_in_december: "days_in_month y 12 = 31"
  by (simp add: days_in_month_def DAYS_IN_MONTH_def)

lemma toordinal_last: "toordinal \<lparr>year = 9999, month = 12, day = 31\<rparr> = MAXORDINAL"
  by (simp add: toordinal_def ymd2ord_def days_before_year_def days_before_month_def is_leap_def
      DAYS_BEFORE_MONTH_def MAXORDINAL_def)

lemma next_day_step:
  assumes "valid_date d" and "toordinal d < MAXORDINAL"
  shows "valid_date (next_day d) \<and> toordinal (next_day d) = toordinal d + 1"
proof -
  from assms(1) have v: "1 \<le> year d" "year d \<le> 9999" "1 \<le> month d" "month d \<le> 12"
    "1 \<le> day d" "day d \<le> days_in_month (year d) (month d)"
    by (simp_all add: valid_date_def)
  show ?thesis
  proof (cases "day d < days_in_month (year d) (month d)")
    case True
    with v show ?thesis
      by (simp add: next_day_def valid_date_def toordinal_def ymd2ord_def)
  next
    case False
    with v have last: "day d = days_in_month (year d) (month d)" by simp
    show ?thesis
    proof (cases "month d < 12")
      case True
      with v have m: "1 \<le> month d" "month d \<le> 11" by simp_all
      have "1 \<le> days_in_month (year d) (month d + 1)"
        using days_in_month_range [of "month d + 1" "year d"] m by simp
      with m v last \<open>\<not> day d < days_in_month (year d) (month d)\<close> show ?thesis
        by (simp add: next_day_def valid_date_def toordinal_def ymd2ord_def
            days_before_month_next [OF m])
    next
      case False
      with v have m: "month d = 12" by simp
      with last have dd: "day d = 31" by (simp add: days_in_december)
      have "year d \<noteq> 9999"
      proof
        assume "year d = 9999"
        with m dd have "d = \<lparr>year = 9999, month = 12, day = 31\<rparr>" by simp
        with assms(2) show False by (simp add: toordinal_last)
      qed
      with v have y: "year d + 1 \<le> 9999" by simp
      have dec: "days_before_month (year d) 12 + 31 = (if is_leap (year d) then 366 else 365)"
        by (simp add: days_before_month_def DAYS_BEFORE_MONTH_def)
      have jan: "days_before_month (year d + 1) 1 = 0" "days_in_month (year d + 1) 1 = 31"
        by (simp_all add: days_before_month_def days_in_month_def DAYS_BEFORE_MONTH_def DAYS_IN_MONTH_def)
      have nd: "next_day d = \<lparr>year = year d + 1, month = 1, day = 1\<rparr>"
        using m dd by (simp add: next_day_def days_in_december)
      have "toordinal d = days_before_year (year d) + (days_before_month (year d) 12 + 31)"
        by (simp add: toordinal_def ymd2ord_def m dd)
      then have "toordinal d + 1 = days_before_year (year d + 1) + 1"
        by (simp only: dec days_before_year_next)
      with v y jan show ?thesis
        by (simp add: nd valid_date_def toordinal_def ymd2ord_def)
    qed
  qed
qed

lemma next_day_funpow:
  "valid_date d \<Longrightarrow> toordinal d + int k \<le> MAXORDINAL \<Longrightarrow>
   valid_date ((next_day ^^ k) d) \<and> toordinal ((next_day ^^ k) d) = toordinal d + int k"
proof (induction k)
  case 0
  then show ?case by simp
next
  case (Suc k)
  then have IH: "valid_date ((next_day ^^ k) d)" "toordinal ((next_day ^^ k) d) = toordinal d + int k"
    by simp_all
  with Suc.prems(2) have "toordinal ((next_day ^^ k) d) < MAXORDINAL"
    by simp
  from next_day_step [OF IH(1) this] IH(2) show ?case
    by simp
qed

lemma toordinal_pos:
  assumes "valid_date d"
  shows "0 < toordinal d"
proof -
  from assms have v: "1 \<le> year d" "1 \<le> month d" "month d \<le> 12" "1 \<le> day d"
    "day d \<le> days_in_month (year d) (month d)"
    by (simp_all add: valid_date_def)
  from v(1) have "0 \<le> year d - 1" by simp
  then obtain a b c e where Y: "year d - 1 = 400 * a + 100 * b + 4 * c + e"
    and bd: "0 \<le> a" "0 \<le> b" "b \<le> 3" "0 \<le> c" "c \<le> 24" "0 \<le> e" "e \<le> 3"
    by (rule year_decomp)
  from Y have y: "year d = 400 * a + 100 * b + 4 * c + e + 1" by simp
  have "days_before_year (year d) = 146097 * a + 36524 * b + 1461 * c + 365 * e"
    unfolding y using bd(2-) by (rule days_before_year_decomp)
  with bd have "0 \<le> days_before_year (year d)" by simp
  moreover have "0 \<le> days_before_month (year d) (month d) + day d - 1"
    using v(2-5) by (rule yday_bounds(1))
  ultimately show ?thesis
    by (simp add: toordinal_def ymd2ord_def)
qed

text \<open>Adding \<open>k\<close> days through the ordinal is going to the next day \<open>k\<close> times.\<close>

lemma add_days_next_day:
  assumes "valid_date d" and "toordinal d + int k \<le> MAXORDINAL"
  shows "add_days d (int k) = Inr ((next_day ^^ k) d)"
proof -
  from next_day_funpow [OF assms] have v: "valid_date ((next_day ^^ k) d)"
    and t: "toordinal ((next_day ^^ k) d) = toordinal d + int k"
    by simp_all
  from ord2ymd_toordinal [OF v] have "ord2ymd (toordinal d + int k) = (next_day ^^ k) d"
    by (simp add: t)
  moreover from toordinal_pos [OF assms(1)] have "0 < toordinal d + int k"
    by simp
  ultimately show ?thesis
    using assms(2) by (simp add: add_days_def Let_def)
qed

lemma header_ops_date:
  "header_ops self files n = Inr head \<Longrightarrow>
   DrawRightString (FromRight 20) (FromTop 55) (date self) \<in> set head"
  by (auto simp: header_ops_def then_do_Inr)

lemma footer_ops_due_date:
  "footer_ops self files y t = Inr foot \<Longrightarrow>
   DrawRightString (FromRight 25) (below y 20) (due_date self) \<in> set foot"
  by (auto simp: footer_ops_def then_do_Inr)

lemma document_dates:
  assumes "generate_invoice self files = (files', Generated f)"
  shows "\<exists>ops y. pdf_files files' f = Some ops \<and>
           DrawRightString (FromRight 20) (FromTop 55) (date self) \<in> set ops \<and>
           DrawRightString (FromRight 25) y (due_date self) \<in> set ops"
proof -
  from assms obtain c n ops where
    draw: "draw_invoice self (files\<lparr>counter_file := c\<rparr>) n = Inr ops"
    and files': "files' = files\<lparr>counter_file := c, pdf_files := (pdf_files files)(f \<mapsto> ops)\<rparr>"
    using generate_invoice_Generated by blast
  from draw obtain head rows y t foot where
    head: "header_ops self (files\<lparr>counter_file := c\<rparr>) n = Inr head"
    and foot: "footer_ops self (files\<lparr>counter_file := c\<rparr>) y t = Inr foot"
    and ops: "ops = head @ rows @ foot"
    using draw_invoice_Inr by blast
  from header_ops_date [OF head] footer_ops_due_date [OF foot] ops files' show ?thesis
    by auto
qed

text \<open>
  Where the program sets the issue date, in the constructor
  (today) and in the callback of the calendar window, it sets the due date to the date 15
  calendar days later, rolling over months and years: 1 January 2024 gives 16 January
  2024, and 20 December 2024 gives 4 January 2025.  A document shows the date and the due
  date that the object holds.  (The date must be a date of the calendar whose fifteenth
  successor is not after 31 December 9999, the last date of \<open>datetime\<close>.)
\<close>

theorem due_date_offset:
  assumes "valid_date d" and "toordinal d + 15 \<le> MAXORDINAL"
  shows "add_days d 15 = Inr ((next_day ^^ 15) d) \<and>
         set_date d self
           = (self\<lparr>date := strftime d, due_date := strftime ((next_day ^^ 15) d)\<rparr>, None) \<and>
         (init d files = Inr (self', files', dialogs) \<longrightarrow>
            date self' = strftime d \<and> due_date self' = strftime ((next_day ^^ 15) d)) \<and>
         (generate_invoice self files = (files'', Generated f) \<longrightarrow>
            (\<exists>ops y. pdf_files files'' f = Some ops \<and>
               DrawRightString (FromRight 20) (FromTop 55) (date self) \<in> set ops \<and>
               DrawRightString (FromRight 25) y (due_date self) \<in> set ops)) \<and>
         (next_day ^^ 15) \<lparr>year = 2024, month = 1, day = 1\<rparr> = \<lparr>year = 2024, month = 1, day = 16\<rparr> \<and>
         (next_day ^^ 15) \<lparr>year = 2024, month = 12, day = 20\<rparr> = \<lparr>year = 2025, month = 1, day = 4\<rparr>"
proof -
  have add: "add_days d 15 = Inr ((next_day ^^ 15) d)"
    using add_days_next_day [OF assms(1), of 15] assms(2) by simp
  have cal: "set_date d self
           = (self\<lparr>date := strftime d, due_date := strftime ((next_day ^^ 15) d)\<rparr>, None)"
    by (simp add: set_date_def Let_def add)
  have con: "date self' = strftime d \<and> due_date self' = strftime ((next_day ^^ 15) d)"
    if "init d files = Inr (self', files', dialogs)"
    using that by (auto simp: init_def then_do_Inr add Let_def split: if_splits)
  have ex1: "(next_day ^^ 15) \<lparr>year = 2024, month = 1, day = 1\<rparr> = \<lparr>year = 2024, month = 1, day = 16\<rparr>"
    by (simp add: eval_nat_numeral next_day_def days_in_month_def DAYS_IN_MONTH_def is_leap_def)
  have ex2: "(next_day ^^ 15) \<lparr>year = 2024, month = 12, day = 20\<rparr> = \<lparr>year = 2025, month = 1, day = 4\<rparr>"
    by (simp add: eval_nat_numeral next_day_def days_in_month_def DAYS_IN_MONTH_def is_leap_def)
  from add cal con ex1 ex2 document_dates show ?thesis
    by blast
qed

theorem due_date_offset_witness:
  "valid_date \<lparr>year = 2024, month = 12, day = 20\<rparr> \<and>
   toordinal \<lparr>year = 2024, month = 12, day = 20\<rparr> + 15 \<le> MAXORDINAL \<and>
   add_days \<lparr>year = 2024, month = 12, day = 20\<rparr> 15 = Inr \<lparr>year = 2025, month = 1, day = 4\<rparr> \<and>
   date (fst (set_date \<lparr>year = 2024, month = 12, day = 20\<rparr> example_app)) = ''20 December 2024'' \<and>
   due_date (fst (set_date \<lparr>year = 2024, month = 12, day = 20\<rparr> example_app)) = ''04 January 2025''"
proof -
  let ?d = "\<lparr>year = 2024, month = 12, day = 20\<rparr>"
  have v: "valid_date ?d"
    by code_simp
  have r: "toordinal ?d + 15 \<le> MAXORDINAL"
    by code_simp
  have s: "strftime ?d = ''20 December 2024''"
    "strftime \<lparr>year = 2025, month = 1, day = 4\<rparr> = ''04 January 2025''"
    by code_simp+
  from due_date_offset [OF v r, of example_app] v r s show ?thesis
    by simp
qed

text \<open>
  C4.  The due date that a document shows is to be its issue date plus 15 calendar
  days.  The code recomputes the due date in the callback of the calendar window, but not
  when a date is typed into the date field, which changes the issue date just the same:
  after 4 November 2026 was chosen in the calendar window and \<open>01 January 2024\<close> was
  typed, the document shows the issue date 01 January 2024 and the due date
  19 November 2026, not 16 January 2024.
\<close>

theorem typed_date_keeps_due_date:
  "date typed_date_example = strftime \<lparr>year = 2024, month = 1, day = 1\<rparr> \<and>
   add_days \<lparr>year = 2024, month = 1, day = 1\<rparr> 15 = Inr \<lparr>year = 2024, month = 1, day = 16\<rparr> \<and>
   due_date typed_date_example = ''19 November 2026'' \<and>
   due_date typed_date_example \<noteq> strftime \<lparr>year = 2024, month = 1, day = 16\<rparr> \<and>
   snd (generate_invoice typed_date_example example_files) = Generated ''invoices/Invoice_42.pdf'' \<and>
   map_option (\<lambda>ops. (ops ! 16, ops ! 72))
     (pdf_files (fst (generate_invoice typed_date_example example_files)) ''invoices/Invoice_42.pdf'')
   = Some (DrawRightString (FromRight 20) (FromTop 55) ''01 January 2024'',
           DrawRightString (FromRight 25) (FromTop 165) ''19 November 2026'')"
proof -
  have a: "date typed_date_example = ''01 January 2024''"
    by code_simp
  have b: "due_date typed_date_example = ''19 November 2026''"
    by code_simp
  have c: "strftime \<lparr>year = 2024, month = 1, day = 1\<rparr> = ''01 January 2024''"
    "strftime \<lparr>year = 2024, month = 1, day = 16\<rparr> = ''16 January 2024''"
    by code_simp+
  have d: "add_days \<lparr>year = 2024, month = 1, day = 1\<rparr> 15 = Inr \<lparr>year = 2024, month = 1, day = 16\<rparr>"
    by code_simp
  have e: "snd (generate_invoice typed_date_example example_files) = Generated ''invoices/Invoice_42.pdf''"
    by code_simp
  have f: "map_option (\<lambda>ops. (ops ! 16, ops ! 72))
     (pdf_files (fst (generate_invoice typed_date_example example_files)) ''invoices/Invoice_42.pdf'')
   = Some (DrawRightString (FromRight 20) (FromTop 55) ''01 January 2024'',
           DrawRightString (FromRight 25) (FromTop 165) ''19 November 2026'')"
    by code_simp
  from a b c d e f show ?thesis
    by simp
qed

end
